theory Spec2Isabelle
  imports Complex_Main "HOL-Library.Word" "HOL-Library.AList"
begin

section \<open>JavaScript strings and the configuration\<close>

text \<open>
  A JavaScript string is a sequence of UTF-16 code units and \<open>.length\<close> counts them, so
  a string is modelled as a list of 16-bit words. \<open>lit\<close> embeds an ASCII literal of
  the source.
\<close>

type_synonym jschar = "16 word"
type_synonym jsstring = "jschar list"

definition lit :: "string \<Rightarrow> jsstring" where
  "lit s = map (\<lambda>c. of_char c) s"

text \<open>\<open>CONFIG\<close> of \<open>config/index.js\<close>.\<close>

definition DAILY_SPENDING_LIMIT :: rat where
  "DAILY_SPENDING_LIMIT = 10"

definition MONTHLY_SPENDING_LIMIT :: rat where
  "MONTHLY_SPENDING_LIMIT = 100"



definition INITIAL_FREE_RECIPES :: int where
  "INITIAL_FREE_RECIPES = 10"

definition FREE_RECIPES_PER_MONTH :: int where
  "FREE_RECIPES_PER_MONTH = 3"

definition BASIC_RECIPES_PER_MONTH :: int where
  "BASIC_RECIPES_PER_MONTH = 20"

section \<open>The spending ledger (\<open>services/spending.js\<close>)\<close>

text \<open>
  The single row of table \<open>spending_tracker\<close>. The amounts are \<open>DECIMAL(10,4)\<close>
  columns, modelled as exact rationals (amounts with at most four decimals, no column
  overflow). \<open>daily_date\<close> holds what \<open>daily_date.toISOString().slice(0, 10)\<close>
  reads. The table is \<open>None\<close> while the row is missing.

  Every function that reads the clock takes the reading as \<open>now\<close>: the string
  \<open>new Date().toISOString()\<close> returns (\<open>2026-01-02T00:00:01.000Z\<close>), so that
  \<open>take 10 now\<close> is the day and \<open>take 7 now\<close> the month. The two readings that
  \<open>getOrResetSpending\<close> makes in a row are taken as one.
\<close>

record tracker =
  daily_date :: jsstring
  daily_amount :: rat
  monthly_month :: jsstring
  monthly_amount :: rat
  paused :: bool

definition initSpendingTable :: "jsstring \<Rightarrow> tracker option \<Rightarrow> tracker" where
  \<comment> \<open>\<open>INSERT ... ON CONFLICT DO NOTHING\<close> with the column defaults; returns the row the
      table holds afterwards\<close>
  "initSpendingTable now db =
     (case db of
        None \<Rightarrow> \<lparr>daily_date = take 10 now, daily_amount = 0,
                 monthly_month = take 7 now, monthly_amount = 0, paused = False\<rparr>
      | Some row \<Rightarrow> row)"

definition reset_periods :: "jsstring \<Rightarrow> tracker \<Rightarrow> tracker \<times> tracker" where
  \<comment> \<open>the body of \<open>getOrResetSpending\<close> once the row is there: the first component is
      the object \<open>tracker\<close> the function returns, the second the row the table holds\<close>
  "reset_periods now row0 =
     (let today = take 10 now;
          currentMonth = take 7 now;
          (tracker1, row1) =
            (if daily_date row0 \<noteq> today
             then (row0\<lparr>daily_amount := 0\<rparr>, row0\<lparr>daily_date := today, daily_amount := 0\<rparr>)
             else (row0, row0))
      in if monthly_month tracker1 \<noteq> currentMonth
         then (tracker1\<lparr>monthly_amount := 0, paused := False\<rparr>,
               row1\<lparr>monthly_month := currentMonth, monthly_amount := 0, paused := False\<rparr>)
         else (tracker1, row1))"

definition getOrResetSpending :: "jsstring \<Rightarrow> tracker option \<Rightarrow> tracker \<times> tracker" where
  \<comment> \<open>a missing row is created and the function calls itself once more, then finding
      the row\<close>
  "getOrResetSpending now db =
     (case db of
        None \<Rightarrow> reset_periods now (initSpendingTable now db)
      | Some row \<Rightarrow> reset_periods now row)"

definition checkSpendingLimits :: "jsstring \<Rightarrow> tracker option \<Rightarrow> bool \<times> tracker option" where
  "checkSpendingLimits now db =
     (let (tracker, row) = getOrResetSpending now db;
          shouldPause = (daily_amount tracker \<ge> DAILY_SPENDING_LIMIT
                         \<or> monthly_amount tracker \<ge> MONTHLY_SPENDING_LIMIT)
      in (shouldPause,
          Some (if shouldPause \<noteq> paused tracker then row\<lparr>paused := shouldPause\<rparr> else row)))"

definition trackSpending :: "rat \<Rightarrow> jsstring \<Rightarrow> tracker option \<Rightarrow> bool \<times> tracker option" where
  \<comment> \<open>the \<open>UPDATE\<close> changes nothing when the row is missing\<close>
  "trackSpending amount now db =
     checkSpendingLimits now
       (map_option (\<lambda>row. row\<lparr>daily_amount := daily_amount row + amount,
                                monthly_amount := monthly_amount row + amount\<rparr>) db)"

definition isSystemPaused :: "jsstring \<Rightarrow> tracker option \<Rightarrow> bool \<times> tracker option" where
  "isSystemPaused now db = checkSpendingLimits now db"

text \<open>
  A call of the ledger's interface, and a run of calls, each with the clock reading it
  made.
\<close>

datatype ledger_call = IsPaused | RecordSpend rat

fun ledger_step :: "jsstring \<times> ledger_call \<Rightarrow> tracker option \<Rightarrow> tracker option" where
  "ledger_step (now, IsPaused) db = snd (isSystemPaused now db)"
| "ledger_step (now, RecordSpend amount) db = snd (trackSpending amount now db)"

fun ledger_run :: "(jsstring \<times> ledger_call) list \<Rightarrow> tracker option \<Rightarrow> tracker option" where
  "ledger_run [] db = db"
| "ledger_run (c # cs) db = ledger_run cs (ledger_step c db)"

fun spend_of :: "ledger_call \<Rightarrow> rat" where
  "spend_of IsPaused = 0"
| "spend_of (RecordSpend amount) = amount"

section \<open>The usage resolver (\<open>services/usage.js\<close>, \<open>services/auth.js\<close>)\<close>

text \<open>
  A row of table \<open>users\<close>; the object \<open>req.user\<close> is such a row as the session lookup
  read it. \<open>subscription\<close> is \<open>None\<close> for SQL \<open>NULL\<close>. A row of table
  \<open>anonymous_usage\<close>, keyed by the fingerprint; the declaration of the table is not in
  the repository, so \<open>last_seen\<close> is \<open>None\<close> while it holds its column default.
\<close>

record user =
  user_id :: int
  subscription :: "jsstring option"
  recipes_used_this_month :: int
  total_recipes_ever :: int
  month_started :: jsstring

record anon_usage =
  recipes_used :: int
  ip_address :: "jsstring option"
  last_seen :: "jsstring option"

text \<open>The durable store: the ledger's row and the two usage tables.\<close>

record store =
  spending_tracker :: "tracker option"
  users :: "int \<rightharpoonup> user"
  anonymous_usage :: "jsstring \<rightharpoonup> anon_usage"

definition resetMonthlyUsageIfNeeded :: "jsstring \<Rightarrow> user \<Rightarrow> store \<Rightarrow> user \<times> store" where
  \<comment> \<open>returns the mutated object \<open>user\<close>; the \<open>UPDATE\<close> changes the row with that id, if
      there is one\<close>
  "resetMonthlyUsageIfNeeded now u st =
     (let currentMonth = take 7 now
      in if month_started u \<noteq> currentMonth
         then (u\<lparr>recipes_used_this_month := 0, month_started := currentMonth\<rparr>,
               st\<lparr>users := (case users st (user_id u) of
                                None \<Rightarrow> users st
                              | Some row \<Rightarrow> (users st)(user_id u \<mapsto>
                                  row\<lparr>recipes_used_this_month := 0,
                                      month_started := currentMonth\<rparr>))\<rparr>)
         else (u, st))"

definition getAnonymousUsage ::
  "jsstring \<Rightarrow> jsstring option \<Rightarrow> jsstring \<Rightarrow> store \<Rightarrow> anon_usage \<times> store" where
  \<comment> \<open>\<open>result.rows[0]\<close> is the inserted row, or the row as the \<open>SELECT\<close> read it before
      the \<open>UPDATE\<close> of \<open>last_seen\<close> and \<open>ip_address\<close>\<close>
  "getAnonymousUsage fingerprint ip now st =
     (case anonymous_usage st fingerprint of
        None \<Rightarrow>
          (let row = \<lparr>recipes_used = 0, ip_address = ip, last_seen = None\<rparr>
           in (row, st\<lparr>anonymous_usage := (anonymous_usage st)(fingerprint \<mapsto> row)\<rparr>))
      | Some row \<Rightarrow>
          (row, st\<lparr>anonymous_usage := (anonymous_usage st)(fingerprint \<mapsto>
                       row\<lparr>last_seen := Some now, ip_address := ip\<rparr>)\<rparr>))"

definition incrementAnonymousUsage :: "jsstring \<Rightarrow> store \<Rightarrow> store" where
  "incrementAnonymousUsage fingerprint st =
     (case anonymous_usage st fingerprint of
        None \<Rightarrow> st
      | Some row \<Rightarrow> st\<lparr>anonymous_usage := (anonymous_usage st)(fingerprint \<mapsto>
                       row\<lparr>recipes_used := recipes_used row + 1\<rparr>)\<rparr>)"

definition incrementUserUsage :: "int \<Rightarrow> store \<Rightarrow> store" where
  "incrementUserUsage userId st =
     (case users st userId of
        None \<Rightarrow> st
      | Some row \<Rightarrow> st\<lparr>users := (users st)(userId \<mapsto>
                       row\<lparr>recipes_used_this_month := recipes_used_this_month row + 1,
                           total_recipes_ever := total_recipes_ever row + 1\<rparr>)\<rparr>)"

text \<open>
  The object \<open>canCleanRecipe\<close> returns; a property the object literal does not have is
  \<open>None\<close>.
\<close>

record can_clean =
  allowed :: bool
  remaining :: "int option"
  reason :: "jsstring option"
  requiresSignup :: "bool option"
  upgrade :: "bool option"
  isAnonymous :: "bool option"
  message :: "jsstring option"

definition verdict :: "bool \<Rightarrow> can_clean" where
  \<comment> \<open>the object literal \<open>{ allowed: b }\<close>, to which the branches add their properties\<close>
  "verdict b = \<lparr>allowed = b, remaining = None, reason = None, requiresSignup = None,
                 upgrade = None, isAnonymous = None, message = None\<rparr>"

definition truthy_string :: "jsstring option \<Rightarrow> bool" where
  \<comment> \<open>\<open>if (fingerprint)\<close>: \<open>undefined\<close> and the empty string are falsy\<close>
  "truthy_string s = (case s of None \<Rightarrow> False | Some v \<Rightarrow> v \<noteq> [])"

definition canCleanRecipe ::
  "jsstring \<Rightarrow> jsstring \<Rightarrow> user option \<Rightarrow> jsstring option \<Rightarrow> jsstring option \<Rightarrow> store
     \<Rightarrow> can_clean \<times> user option \<times> store" where
  \<comment> \<open>\<open>now1\<close> is the clock reading of \<open>isSystemPaused\<close>, \<open>now2\<close> that of the tier or
      fingerprint rule; the second component is the object \<open>user\<close> after the call, which
      \<open>resetMonthlyUsageIfNeeded\<close> mutates\<close>
  "canCleanRecipe now1 now2 usr fingerprint ip st =
     (let (isPaused, ledger) = isSystemPaused now1 (spending_tracker st);
          st1 = st\<lparr>spending_tracker := ledger\<rparr>
      in if isPaused
         then ((verdict False)\<lparr>reason := Some (lit ''system_limit'')\<rparr>, usr, st1)
         else (case usr of
           Some u0 \<Rightarrow>
             (let (u, st2) = resetMonthlyUsageIfNeeded now2 u0 st1
              in if subscription u = Some (lit ''pro'') then (verdict True, Some u, st2)
                 else if subscription u = Some (lit ''basic'')
                 then ((verdict (recipes_used_this_month u < BASIC_RECIPES_PER_MONTH))
                         \<lparr>remaining := Some (BASIC_RECIPES_PER_MONTH - recipes_used_this_month u)\<rparr>,
                       Some u, st2)
                 else ((verdict (recipes_used_this_month u < FREE_RECIPES_PER_MONTH))
                         \<lparr>remaining := Some (FREE_RECIPES_PER_MONTH - recipes_used_this_month u),
                          upgrade := Some (recipes_used_this_month u \<ge> FREE_RECIPES_PER_MONTH)\<rparr>,
                       Some u, st2))
         | None \<Rightarrow>
             if truthy_string fingerprint
             then (let (usage, st2) = getAnonymousUsage (the fingerprint) ip now2 st1
                   in if recipes_used usage < INITIAL_FREE_RECIPES
                      then ((verdict True)
                              \<lparr>remaining := Some (INITIAL_FREE_RECIPES - recipes_used usage),
                               isAnonymous := Some True\<rparr>, None, st2)
                      else ((verdict False)
                              \<lparr>reason := Some (lit ''initial_limit''),
                               requiresSignup := Some True,
                               message := Some (lit ''You've used your 10 free recipes! Sign up free to get 3 more each month.'')\<rparr>,
                            None, st2))
             else ((verdict False)\<lparr>reason := Some (lit ''no_tracking'')\<rparr>, None, st1)))"

text \<open>\<open>Infinity\<close> or a number.\<close>

datatype remaining_recipes = Infinity | Finite int

definition getRemainingRecipes :: "user option \<Rightarrow> remaining_recipes" where
  "getRemainingRecipes usr =
     (case usr of
        None \<Rightarrow> Finite 0
      | Some u \<Rightarrow>
          if subscription u = Some (lit ''pro'') then Infinity
          else if subscription u = Some (lit ''basic'')
          then Finite (max 0 (BASIC_RECIPES_PER_MONTH - recipes_used_this_month u))
          else Finite (max 0 (FREE_RECIPES_PER_MONTH - recipes_used_this_month u)))"

section \<open>The rate limiter (\<open>middleware/rateLimiter.js\<close>)\<close>

text \<open>
  The module keeps one \<open>Map\<close> named \<open>requests\<close>, which every limiter made by
  \<open>rateLimiter\<close> reads and writes. A key is \<open>req.user?.id || req.ip || 'unknown'\<close>: a
  user id (a number, falsy when 0) or a string. \<open>now\<close> is \<open>Date.now()\<close>, in
  milliseconds.
\<close>

datatype limiter_key = KeyId int | KeyString jsstring

record rate_window =
  windowStart :: int
  count :: int

datatype limiter_result = Rejected429 | Next

definition limiter_key_of :: "user option \<Rightarrow> jsstring option \<Rightarrow> limiter_key" where
  "limiter_key_of usr ip =
     (if usr \<noteq> None \<and> user_id (the usr) \<noteq> 0 then KeyId (user_id (the usr))
      else if truthy_string ip then KeyString (the ip)
      else KeyString (lit ''unknown''))"

definition rateLimiter ::
  "int \<Rightarrow> int \<Rightarrow> limiter_key \<Rightarrow> int \<Rightarrow> (limiter_key \<rightharpoonup> rate_window)
     \<Rightarrow> limiter_result \<times> (limiter_key \<rightharpoonup> rate_window)" where
  \<comment> \<open>\<open>data.count++\<close> writes to the object the map holds\<close>
  "rateLimiter windowMs max_req key now requests =
     (let data0 = (case requests key of
                     None \<Rightarrow> \<lparr>windowStart = now, count = 0\<rparr>
                   | Some d \<Rightarrow> if now - windowStart d > windowMs
                              then \<lparr>windowStart = now, count = 0\<rparr> else d);
          data = data0\<lparr>count := count data0 + 1\<rparr>
      in (if count data > max_req then Rejected429 else Next, requests(key \<mapsto> data)))"

definition recipeRateLimiter ::
  "limiter_key \<Rightarrow> int \<Rightarrow> (limiter_key \<rightharpoonup> rate_window)
     \<Rightarrow> limiter_result \<times> (limiter_key \<rightharpoonup> rate_window)" where
  "recipeRateLimiter = rateLimiter 60000 10"

definition apiRateLimiter ::
  "limiter_key \<Rightarrow> int \<Rightarrow> (limiter_key \<rightharpoonup> rate_window)
     \<Rightarrow> limiter_result \<times> (limiter_key \<rightharpoonup> rate_window)" where
  "apiRateLimiter = rateLimiter 60000 100"

definition cleanup :: "int \<Rightarrow> (limiter_key \<rightharpoonup> rate_window) \<Rightarrow> (limiter_key \<rightharpoonup> rate_window)" where
  \<comment> \<open>the body of the \<open>setInterval\<close> callback\<close>
  "cleanup now requests =
     (\<lambda>key. case requests key of
        None \<Rightarrow> None
      | Some d \<Rightarrow> if now - windowStart d > 60000 then None else Some d)"

text \<open>
  What happens to the map over time: a request reaching the strict limiter of the
  extraction routes, a request reaching the general limiter, a run of the clean-up
  timer. \<open>passes key events requests\<close> counts the requests of \<open>key\<close> that the strict
  limiter hands on to the route during the run.
\<close>

datatype limiter_event =
  RecipeRequest limiter_key int
  | ApiRequest limiter_key int
  | CleanupTick int

fun event_time :: "limiter_event \<Rightarrow> int" where
  "event_time (RecipeRequest key now) = now"
| "event_time (ApiRequest key now) = now"
| "event_time (CleanupTick now) = now"

fun passes :: "limiter_key \<Rightarrow> limiter_event list \<Rightarrow> (limiter_key \<rightharpoonup> rate_window) \<Rightarrow> nat" where
  "passes k [] requests = 0"
| "passes k (RecipeRequest key now # es) requests =
     (if key = k \<and> fst (recipeRateLimiter key now requests) = Next then 1 else 0)
       + passes k es (snd (recipeRateLimiter key now requests))"
| "passes k (ApiRequest key now # es) requests =
     passes k es (snd (apiRateLimiter key now requests))"
| "passes k (CleanupTick now # es) requests = passes k es (cleanup now requests)"

fun limiter_run ::
  "limiter_event list \<Rightarrow> (limiter_key \<rightharpoonup> rate_window) \<Rightarrow> (limiter_key \<rightharpoonup> rate_window)" where
  \<comment> \<open>the map after the events\<close>
  "limiter_run [] requests = requests"
| "limiter_run (RecipeRequest key now # es) requests =
     limiter_run es (snd (recipeRateLimiter key now requests))"
| "limiter_run (ApiRequest key now # es) requests =
     limiter_run es (snd (apiRateLimiter key now requests))"
| "limiter_run (CleanupTick now # es) requests = limiter_run es (cleanup now requests)"

section \<open>JSON values and the validator (\<open>validateAndFixRecipe\<close> of \<open>services/recipes.js\<close>)\<close>

text \<open>
  A recipe is whatever \<open>JSON.parse\<close> or the schema conversion produced, so the model
  works on JavaScript values: the JSON values and \<open>undefined\<close>. An object is the list
  of its properties in insertion order; reading a missing property gives
  \<open>undefined\<close>, and an assignment replaces the property in place or appends it.
  Numbers are the finite ones, as exact rationals.
\<close>

datatype jsval =
  JUndefined
  | JNull
  | JBool bool
  | JNum rat
  | JStr jsstring
  | JArr "jsval list"
  | JObj "(jsstring \<times> jsval) list"

type_synonym object = "(jsstring \<times> jsval) list"

definition get :: "object \<Rightarrow> string \<Rightarrow> jsval" where
  "get obj k = (case map_of obj (lit k) of None \<Rightarrow> JUndefined | Some v \<Rightarrow> v)"

definition assign :: "object \<Rightarrow> string \<Rightarrow> jsval \<Rightarrow> object" where
  "assign obj k v = AList.update (lit k) v obj"

fun truthy :: "jsval \<Rightarrow> bool" where
  "truthy JUndefined = False"
| "truthy JNull = False"
| "truthy (JBool b) = b"
| "truthy (JNum n) = (n \<noteq> 0)"
| "truthy (JStr s) = (s \<noteq> [])"
| "truthy (JArr xs) = True"
| "truthy (JObj kvs) = True"

fun elements :: "jsval \<Rightarrow> jsval list" where
  \<comment> \<open>the elements of an array; used where the value is known to be one\<close>
  "elements (JArr xs) = xs"
| "elements v = []"

fun isArray :: "jsval \<Rightarrow> bool" where
  "isArray (JArr xs) = True"
| "isArray v = False"

definition is_space :: "jschar \<Rightarrow> bool" where
  \<comment> \<open>the code units \<open>String.prototype.trim\<close> strips: WhiteSpace and LineTerminator\<close>
  "is_space c =
     (c \<in> {0x09, 0x0A, 0x0B, 0x0C, 0x0D, 0x20, 0xA0, 0x1680, 0x2028, 0x2029, 0x202F,
            0x205F, 0x3000, 0xFEFF}
      \<or> (0x2000 \<le> c \<and> c \<le> 0x200A))"

definition trim :: "jsstring \<Rightarrow> jsstring" where
  "trim s = rev (dropWhile is_space (rev (dropWhile is_space s)))"

fun decimal :: "nat \<Rightarrow> jsstring" where
  \<comment> \<open>\<open>String(n)\<close> for an array index\<close>
  "decimal n =
     (if n < 10 then [of_nat (48 + n)] else decimal (n div 10) @ [of_nat (48 + n mod 10)])"

declare decimal.simps [simp del]


text \<open>
  What a call can throw. \<open>ProviderError\<close> is an error object of the AI provider's
  client, with its \<open>status\<close> property if it has one.
\<close>

datatype exn = TypeError | SyntaxError | Error jsstring | ProviderError "nat option"

datatype issue = steps_too_long | too_few_steps

definition MAX_STEP_LENGTH :: nat where
  "MAX_STEP_LENGTH = 400"

fun length_exceeds :: "jsval \<Rightarrow> nat \<Rightarrow> exn + bool" where
  \<comment> \<open>\<open>v?.length > n\<close>. \<open>undefined\<close> and \<open>null\<close> stop the optional chain and
      \<open>undefined > n\<close> is false; a number or boolean has no \<open>length\<close>. For an object the
      comparison would coerce its \<open>length\<close> property, if any; \<open>validateAndFixRecipe\<close>
      then always ends in the \<open>TypeError\<close> of \<open>.trim()\<close> on that object (lemma
      \<open>object_instruction_throws\<close>), and the model raises it here.\<close>
  "length_exceeds JUndefined n = Inr False"
| "length_exceeds JNull n = Inr False"
| "length_exceeds (JBool b) n = Inr False"
| "length_exceeds (JNum r) n = Inr False"
| "length_exceeds (JStr s) n = Inr (length s > n)"
| "length_exceeds (JArr xs) n = Inr (length xs > n)"
| "length_exceeds (JObj kvs) n = Inl TypeError"

fun step_too_long :: "jsval \<Rightarrow> exn + bool" where
  \<comment> \<open>\<open>s => (typeof s === 'string' ? s : s.instruction)?.length > MAX_STEP_LENGTH\<close>;
      \<open>s.instruction\<close> throws on \<open>null\<close> and is \<open>undefined\<close> on a number, a boolean
      and an array\<close>
  "step_too_long (JStr s) = length_exceeds (JStr s) MAX_STEP_LENGTH"
| "step_too_long (JObj kvs) = length_exceeds (get kvs ''instruction'') MAX_STEP_LENGTH"
| "step_too_long JUndefined = Inl TypeError"
| "step_too_long JNull = Inl TypeError"
| "step_too_long v = Inr False"

fun some_exn :: "('a \<Rightarrow> exn + bool) \<Rightarrow> 'a list \<Rightarrow> exn + bool" where
  \<comment> \<open>\<open>Array.prototype.some\<close>: stops at the first element the callback accepts or
      throws on\<close>
  "some_exn f [] = Inr False"
| "some_exn f (x # xs) =
     (case f x of Inl e \<Rightarrow> Inl e | Inr True \<Rightarrow> Inr True | Inr False \<Rightarrow> some_exn f xs)"

fun map_exn :: "('a \<Rightarrow> exn + 'b) \<Rightarrow> 'a list \<Rightarrow> exn + 'b list" where
  "map_exn f [] = Inr []"
| "map_exn f (x # xs) =
     (case f x of
        Inl e \<Rightarrow> Inl e
      | Inr y \<Rightarrow> (case map_exn f xs of Inl e \<Rightarrow> Inl e | Inr ys \<Rightarrow> Inr (y # ys)))"

fun filter_exn :: "('a \<Rightarrow> exn + bool) \<Rightarrow> 'a list \<Rightarrow> exn + 'a list" where
  "filter_exn f [] = Inr []"
| "filter_exn f (x # xs) =
     (case f x of
        Inl e \<Rightarrow> Inl e
      | Inr keep \<Rightarrow>
          (case filter_exn f xs of
             Inl e \<Rightarrow> Inl e
           | Inr ys \<Rightarrow> Inr (if keep then x # ys else ys)))"

fun coerce_step :: "jsval \<Rightarrow> exn + jsval" where
  \<comment> \<open>\<open>s => typeof s === 'string' ? { instruction: s, ingredients: [] }
        : { ...s, ingredients: s.ingredients || [] }\<close>; spreading an array copies its
      index properties, spreading a number or a boolean copies nothing\<close>
  "coerce_step (JStr s) =
     Inr (JObj [(lit ''instruction'', JStr s), (lit ''ingredients'', JArr [])])"
| "coerce_step (JObj kvs) =
     Inr (JObj (assign kvs ''ingredients''
        (if truthy (get kvs ''ingredients'') then get kvs ''ingredients'' else JArr [])))"
| "coerce_step (JArr xs) =
     Inr (JObj (zip (map decimal [0..<length xs]) xs @ [(lit ''ingredients'', JArr [])]))"
| "coerce_step JUndefined = Inl TypeError"
| "coerce_step JNull = Inl TypeError"
| "coerce_step v = Inr (JObj [(lit ''ingredients'', JArr [])])"

fun keep_instruction :: "jsval \<Rightarrow> exn + bool" where
  \<comment> \<open>\<open>instruction?.trim().length > 10\<close>: only a string has \<open>trim\<close>\<close>
  "keep_instruction JUndefined = Inr False"
| "keep_instruction JNull = Inr False"
| "keep_instruction (JStr s) = Inr (length (trim s) > 10)"
| "keep_instruction v = Inl TypeError"

fun keep_step :: "jsval \<Rightarrow> exn + bool" where
  \<comment> \<open>\<open>s => s.instruction?.trim().length > 10\<close>, on the coerced steps, which are
      objects\<close>
  "keep_step (JObj kvs) = keep_instruction (get kvs ''instruction'')"
| "keep_step JUndefined = Inl TypeError"
| "keep_step JNull = Inl TypeError"
| "keep_step (JStr s) = Inr False"
| "keep_step v = Inr False"

definition fill_defaults :: "object \<Rightarrow> object" where
  \<comment> \<open>the four \<open>if\<close> statements that open \<open>validateAndFixRecipe\<close>\<close>
  "fill_defaults recipe0 =
     (let recipe1 = (if \<not> truthy (get recipe0 ''title'')
                     then assign recipe0 ''title'' (JStr (lit ''Recipe'')) else recipe0);
          recipe2 = (if \<not> truthy (get recipe1 ''servings'')
                     then assign recipe1 ''servings'' (JNum 4) else recipe1);
          recipe3 = (if \<not> truthy (get recipe2 ''ingredients'') \<or> \<not> isArray (get recipe2 ''ingredients'')
                     then assign recipe2 ''ingredients'' (JArr []) else recipe2)
      in if \<not> truthy (get recipe3 ''steps'') \<or> \<not> isArray (get recipe3 ''steps'')
         then assign recipe3 ''steps'' (JArr []) else recipe3)"

definition validateAndFixRecipe :: "object \<Rightarrow> exn + object \<times> issue list" where
  "validateAndFixRecipe recipe0 =
     (let recipe = fill_defaults recipe0;
          ingredients = elements (get recipe ''ingredients'');
          steps = elements (get recipe ''steps'')
      in case some_exn step_too_long steps of
           Inl e \<Rightarrow> Inl e
         | Inr long \<Rightarrow>
             (let issues = (if long then [steps_too_long] else [])
                           @ (if length ingredients > 5 \<and> length steps < 3
                              then [too_few_steps] else [])
              in case map_exn coerce_step steps of
                   Inl e \<Rightarrow> Inl e
                 | Inr coerced \<Rightarrow>
                     (case filter_exn keep_step coerced of
                        Inl e \<Rightarrow> Inl e
                      | Inr kept \<Rightarrow> Inr (assign recipe ''steps'' (JArr kept), issues))))"

text \<open>
  The text a raw step carries when it is a string or an object whose \<open>instruction\<close> is a
  string.
\<close>

fun instruction_of :: "jsval \<Rightarrow> jsstring option" where
  "instruction_of (JStr s) = Some s"
| "instruction_of (JObj kvs) = (case get kvs ''instruction'' of JStr s \<Rightarrow> Some s | _ \<Rightarrow> None)"
| "instruction_of v = None"

section \<open>Calls to the AI provider (\<open>services/recipes.js\<close>)\<close>

text \<open>
  What \<open>await anthropic.messages.create(...)\<close> gives is an input of the model:
  \<open>Inl e\<close> when the call rejects with \<open>e\<close>, otherwise the texts of the content blocks
  of the response (\<open>c.text || ''\<close> for each block; no block when \<open>content\<close> is missing).
  The prompt, and with it the target language, the photos and the transcript, has no
  other effect on the result. \<open>JSON.parse\<close> is a parameter \<open>parse\<close>: it is only applied
  to a text that starts with an opening brace, where its result, if any, is an object;
  \<open>None\<close> stands for the \<open>SyntaxError\<close>.
\<close>

type_synonym ai_response = "exn + jsstring list"

definition skip_newline :: "jsstring \<Rightarrow> jsstring" where
  \<comment> \<open>the \<open>\n?\<close> that ends both patterns\<close>
  "skip_newline s = (case s of [] \<Rightarrow> [] | c # cs \<Rightarrow> if c = 0x0A then cs else s)"

function remove_fences :: "jsstring \<Rightarrow> jsstring \<Rightarrow> jsstring" where
  \<comment> \<open>\<open>s.replace(/fence\n?/g, '')\<close> for a literal, non-empty \<open>fence\<close>\<close>
  "remove_fences fence s =
     (if s = [] \<or> fence = [] then s
      else if take (length fence) s = fence
      then remove_fences fence (skip_newline (drop (length fence) s))
      else hd s # remove_fences fence (tl s))"
  by pat_completeness auto
termination
proof (relation "measure (\<lambda>(fence, s). length s)")
  show "wf (measure (\<lambda>(fence, s). length s))"
    by simp
next
  fix fence s :: jsstring
  assume a: "\<not> (s = [] \<or> fence = [])"
  have "length (skip_newline t) \<le> length t" for t
    by (cases t) (simp_all add: skip_newline_def)
  then have "length (skip_newline (drop (length fence) s)) \<le> length (drop (length fence) s)" .
  also from a have "\<dots> < length s"
    by simp
  finally show "((fence, skip_newline (drop (length fence) s)), (fence, s))
                  \<in> measure (\<lambda>(fence, s). length s)"
    by simp
next
  fix fence s :: jsstring
  assume "\<not> (s = [] \<or> fence = [])"
  then show "((fence, tl s), (fence, s)) \<in> measure (\<lambda>(fence, s). length s)"
    by simp
qed

declare remove_fences.simps [simp del]

definition match_object :: "jsstring \<Rightarrow> jsstring option" where
  \<comment> \<open>\<open>text.match(/\{[\s\S]*\}/)\<close>: from the first opening brace to the last closing
      brace after it\<close>
  "match_object text =
     (let rest = dropWhile (\<lambda>c. c \<noteq> 0x7B) text
      in if 0x7D \<in> set rest then Some (rev (dropWhile (\<lambda>c. c \<noteq> 0x7D) (rev rest))) else None)"

definition response_match :: "jsstring list \<Rightarrow> jsstring option" where
  \<comment> \<open>the three statements every caller repeats: join the block texts, strip the code
      fences, trim, match\<close>
  "response_match content =
     match_object (trim (remove_fences (lit ''```'') (remove_fences (lit ''```json'') (concat content))))"


definition parse_or_throw ::
  "(jsstring \<Rightarrow> object option) \<Rightarrow> jsstring \<Rightarrow> ai_response \<Rightarrow> exn + object" where
  \<comment> \<open>the tail shared by the extracting functions:
      \<open>if (!match) throw new Error(msg); return JSON.parse(match[0])\<close>, outside any
      \<open>try\<close>\<close>
  "parse_or_throw parse msg response =
     (case response of
        Inl e \<Rightarrow> Inl e
      | Inr content \<Rightarrow>
          (case response_match content of
             None \<Rightarrow> Inl (Error msg)
           | Some m \<Rightarrow> (case parse m of None \<Rightarrow> Inl SyntaxError | Some recipe \<Rightarrow> Inr recipe)))"






definition translateRecipe ::
  "(jsstring \<Rightarrow> object option) \<Rightarrow> object \<Rightarrow> jsstring \<Rightarrow> ai_response \<Rightarrow> exn + object" where
  "translateRecipe parse recipe targetLanguage response =
     (case parse_or_throw parse (lit ''No valid JSON in response'') response of
        Inl e \<Rightarrow> Inl e
      | Inr translatedRecipe \<Rightarrow>
          Inr (assign (assign (assign translatedRecipe
                 ''source'' (get recipe ''source''))
                 ''sourceUrl'' (get recipe ''sourceUrl''))
                 ''imageUrl'' (get recipe ''imageUrl'')))"

section \<open>The extraction routes (\<open>routes/recipes.js\<close>)\<close>

text \<open>
  The request as the handlers read it: \<open>req.user\<close> as \<open>authenticateToken\<close> left it,
  \<open>req.ip\<close>, the \<open>x-forwarded-for\<close> header and the fields of the body (\<open>None\<close> for a
  missing one).
\<close>

record request =
  req_user :: "user option"
  req_ip :: "jsstring option"
  forwarded_for :: "jsstring option"
  body_url :: "jsstring option"
  body_language :: "jsstring option"
  body_fingerprint :: "jsstring option"
  body_photos :: "jsstring list option"

text \<open>
  What the world outside the handler answers during one request: \<open>clock i\<close> is the
  \<open>i\<close>-th reading of the clock the request makes, \<open>fetchWebpage\<close> and
  \<open>getYouTubeTranscript\<close> are the results of the network fetches, \<open>ai_extract\<close>,
  \<open>ai_fix\<close> and \<open>ai_enhance\<close> what the AI provider answers to the extracting, the
  repairing and the enhancing call if the request makes it. \<open>extractRecipeSchema\<close> and
  \<open>convertSchemaToRecipe\<close> are not modelled: any function stands for them, and
  \<open>convertSchemaToRecipe\<close> may throw.
\<close>

record env =
  clock :: "nat \<Rightarrow> jsstring"
  JSON_parse :: "jsstring \<Rightarrow> object option"
  fetchWebpage :: "jsstring option \<Rightarrow> jsstring option"
  extractRecipeSchema :: "jsstring \<Rightarrow> jsval option"
  convertSchemaToRecipe :: "jsval \<Rightarrow> jsstring option \<Rightarrow> exn + object"
  getYouTubeTranscript :: "jsstring \<Rightarrow> exn + jsstring"
  ai_extract :: ai_response
  ai_fix :: ai_response
  ai_enhance :: ai_response

text \<open>
  How a request ends: one of the responses the handlers send, or \<open>Thrown e\<close> when the
  handler's promise rejects and \<open>asyncHandler\<close> passes \<open>e\<close> to \<open>errorHandler\<close>, which
  answers with \<open>err.status || 500\<close>.
\<close>

datatype response =
  Recipe200 object remaining_recipes
  | Denied402 "jsstring option" "bool option" "bool option" jsstring
  | BadRequest400 jsstring
  | TooManyRequests429
  | Thrown exn

fun status :: "response \<Rightarrow> nat" where
  "status (Recipe200 recipe recipesRemaining) = 200"
| "status (Denied402 err signup upg msg) = 402"
| "status (BadRequest400 err) = 400"
| "status TooManyRequests429 = 429"
| "status (Thrown (ProviderError (Some s))) = (if s = 0 then 500 else s)"
| "status (Thrown e) = 500"

fun succeeded :: "response \<Rightarrow> bool" where
  "succeeded (Recipe200 recipe recipesRemaining) = True"
| "succeeded r = False"

text \<open>
  How an extraction stops before its end: \<open>return res.status(400).json({ error })\<close>, or
  a throw.
\<close>

datatype early = Reply400 jsstring | Throw exn

fun early_response :: "early \<Rightarrow> response" where
  "early_response (Reply400 err) = BadRequest400 err"
| "early_response (Throw x) = Thrown x"



definition admit ::
  "env \<Rightarrow> request \<Rightarrow> store \<Rightarrow> (response + user option \<times> can_clean) \<times> store" where
  \<comment> \<open>the opening of each handler, up to the 402 response: \<open>Inr\<close> holds the object
      \<open>user\<close> and \<open>canClean\<close> when the request may go on\<close>
  "admit e req st =
     (let ip = (if truthy_string (req_ip req) then req_ip req else forwarded_for req);
          (usr, st1) = (case req_user req of
                          Some u \<Rightarrow> (let (u', s) = resetMonthlyUsageIfNeeded (clock e 0) u st
                                     in (Some u', s))
                        | None \<Rightarrow> (None, st));
          (canClean, usr', st2) =
            canCleanRecipe (clock e 1) (clock e 2) usr (body_fingerprint req) ip st1
      in if \<not> allowed canClean
         then (Inl (Denied402 (reason canClean) (requiresSignup canClean) (upgrade canClean)
                      (if truthy_string (message canClean) then the (message canClean)
                       else lit ''Upgrade for more recipes!'')), st2)
         else (Inr (usr', canClean), st2))"



definition commit_usage ::
  "(object \<Rightarrow> exn option) \<Rightarrow> user option \<Rightarrow> jsstring option \<Rightarrow> can_clean \<Rightarrow> object \<Rightarrow> store
     \<Rightarrow> response \<times> store" where
  \<comment> \<open>the close of each handler: the usage increment, \<open>recipesRemaining\<close>, the
      handler's log statement if it has one, and the 200 response\<close>
  "commit_usage log_stmt usr fingerprint canClean recipe st =
     (let st' = (case usr of
                   Some u \<Rightarrow> incrementUserUsage (user_id u) st
                 | None \<Rightarrow> if truthy_string fingerprint
                           then incrementAnonymousUsage (the fingerprint) st else st);
          recipesRemaining =
            (case usr of
               Some u \<Rightarrow> getRemainingRecipes
                 (Some (u\<lparr>recipes_used_this_month := recipes_used_this_month u + 1\<rparr>))
             | None \<Rightarrow> Finite (max 0 ((case remaining canClean of None \<Rightarrow> 0 | Some n \<Rightarrow> n) - 1)))
      in case log_stmt recipe of
           Some x \<Rightarrow> (Thrown x, st')
         | None \<Rightarrow> (Recipe200 recipe recipesRemaining, st'))"








definition handler ::
  "(env \<Rightarrow> request \<Rightarrow> early + object \<times> rat) \<Rightarrow> (object \<Rightarrow> exn option) \<Rightarrow> env \<Rightarrow> request
     \<Rightarrow> store \<Rightarrow> response \<times> store" where
  \<comment> \<open>the shape the three handlers share: quota check, extraction, \<open>trackSpending\<close>,
      usage increment, log statement, response\<close>
  "handler extraction log_stmt e req st =
     (case admit e req st of
        (Inl denied, st2) \<Rightarrow> (denied, st2)
      | (Inr (usr, canClean), st2) \<Rightarrow>
          (case extraction e req of
             Inl early \<Rightarrow> (early_response early, st2)
           | Inr (recipe, cost) \<Rightarrow>
               commit_usage log_stmt usr (body_fingerprint req) canClean recipe
                 (st2\<lparr>spending_tracker :=
                        snd (trackSpending cost (clock e 3) (spending_tracker st2))\<rparr>)))"




definition limited ::
  "(env \<Rightarrow> request \<Rightarrow> store \<Rightarrow> response \<times> store) \<Rightarrow> env \<Rightarrow> int \<Rightarrow> request
     \<Rightarrow> (limiter_key \<rightharpoonup> rate_window) \<times> store
     \<Rightarrow> response \<times> (limiter_key \<rightharpoonup> rate_window) \<times> store" where
  \<comment> \<open>\<open>router.post(path, recipeRateLimiter, asyncHandler(h))\<close>: the handler runs when the
      limiter calls \<open>next()\<close>; \<open>now\<close> is the limiter's \<open>Date.now()\<close>\<close>
  "limited h e now req state =
     (case recipeRateLimiter (limiter_key_of (req_user req) (req_ip req)) now (fst state) of
        (Rejected429, requests) \<Rightarrow> (TooManyRequests429, requests, snd state)
      | (Next, requests) \<Rightarrow> (let (r, st) = h e req (snd state) in (r, requests, st)))"

text \<open>
  The usage tables of \<open>st'\<close> show no increment over those of \<open>st\<close>: every user row has
  its \<open>total_recipes_ever\<close>, and its \<open>recipes_used_this_month\<close> or zero (the monthly
  reset); every fingerprint row has its \<open>recipes_used\<close>, a new row zero.
\<close>

definition usage_not_incremented :: "store \<Rightarrow> store \<Rightarrow> bool" where
  "usage_not_incremented st st' =
     ((\<forall>uid. case users st' uid of
          None \<Rightarrow> users st uid = None
        | Some r' \<Rightarrow> (\<exists>r. users st uid = Some r
                        \<and> total_recipes_ever r' = total_recipes_ever r
                        \<and> (recipes_used_this_month r' = recipes_used_this_month r
                           \<or> recipes_used_this_month r' = 0)))
      \<and> (\<forall>fp. case anonymous_usage st' fp of
          None \<Rightarrow> anonymous_usage st fp = None
        | Some r' \<Rightarrow> recipes_used r' =
                       (case anonymous_usage st fp of None \<Rightarrow> 0 | Some r \<Rightarrow> recipes_used r)))"

section \<open>Properties of the spending ledger\<close>

lemma reset_periods_agree:
  "reset_periods now row0 = (tr, row) \<Longrightarrow>
     daily_amount tr = daily_amount row \<and> monthly_amount tr = monthly_amount row \<and> paused tr = paused row"
  by (auto simp: reset_periods_def Let_def split: if_splits)

lemma getOrResetSpending_agree:
  "getOrResetSpending now db = (tr, row) \<Longrightarrow>
     daily_amount tr = daily_amount row \<and> monthly_amount tr = monthly_amount row \<and> paused tr = paused row"
  unfolding getOrResetSpending_def by (cases db) (auto dest: reset_periods_agree)

lemma checkSpendingLimits_flag:
  assumes "checkSpendingLimits now db = (p, db')"
  shows "\<exists>row. db' = Some row \<and> paused row = p \<and>
           p = (DAILY_SPENDING_LIMIT \<le> daily_amount row \<or> MONTHLY_SPENDING_LIMIT \<le> monthly_amount row)"
proof -
  obtain tr row where g: "getOrResetSpending now db = (tr, row)"
    by (cases "getOrResetSpending now db")
  note a = getOrResetSpending_agree [OF g]
  from assms g a show ?thesis
    by (auto simp: checkSpendingLimits_def Let_def)
qed

lemma reset_periods_row:
  "snd (reset_periods now row0) =
     row0\<lparr>daily_date := take 10 now,
          daily_amount := (if daily_date row0 \<noteq> take 10 now then 0 else daily_amount row0),
          monthly_month := take 7 now,
          monthly_amount := (if monthly_month row0 \<noteq> take 7 now then 0 else monthly_amount row0),
          paused := (if monthly_month row0 \<noteq> take 7 now then False else paused row0)\<rparr>"
  by (simp add: reset_periods_def Let_def)

lemma checkSpendingLimits_Some:
  "\<exists>row. snd (checkSpendingLimits now (Some t)) = Some row
      \<and> daily_date row = take 10 now
      \<and> daily_amount row = (if daily_date t \<noteq> take 10 now then 0 else daily_amount t)
      \<and> monthly_month row = take 7 now
      \<and> monthly_amount row = (if monthly_month t \<noteq> take 7 now then 0 else monthly_amount t)"
proof -
  obtain tr row where r: "reset_periods now t = (tr, row)"
    by (cases "reset_periods now t")
  with reset_periods_row [of now t] have row: "row = t\<lparr>daily_date := take 10 now,
          daily_amount := (if daily_date t \<noteq> take 10 now then 0 else daily_amount t),
          monthly_month := take 7 now,
          monthly_amount := (if monthly_month t \<noteq> take 7 now then 0 else monthly_amount t),
          paused := (if monthly_month t \<noteq> take 7 now then False else paused t)\<rparr>"
    by simp
  show ?thesis
    by (simp add: checkSpendingLimits_def getOrResetSpending_def r Let_def) (simp add: row)
qed

lemma ledger_step_Some:
  "\<exists>row. ledger_step (now, c) (Some t) = Some row
      \<and> daily_date row = take 10 now
      \<and> daily_amount row = (if daily_date t \<noteq> take 10 now then 0 else daily_amount t + spend_of c)
      \<and> monthly_month row = take 7 now
      \<and> monthly_amount row = (if monthly_month t \<noteq> take 7 now then 0 else monthly_amount t + spend_of c)"
proof (cases c)
  case IsPaused
  then show ?thesis
    using checkSpendingLimits_Some [of now t] by (auto simp: isSystemPaused_def)
next
  case (RecordSpend a)
  then show ?thesis
    using checkSpendingLimits_Some
      [of now "t\<lparr>daily_amount := daily_amount t + a, monthly_amount := monthly_amount t + a\<rparr>"]
    by (auto simp: trackSpending_def)
qed

lemma run_keeps_daily:
  assumes "DAILY_SPENDING_LIMIT \<le> daily_amount t"
    and "\<forall>c\<in>set calls. take 10 (fst c) = daily_date t \<and> 0 \<le> spend_of (snd c)"
  shows "\<exists>row. ledger_run calls (Some t) = Some row \<and> daily_date row = daily_date t
           \<and> DAILY_SPENDING_LIMIT \<le> daily_amount row"
  using assms
proof (induction calls arbitrary: t)
  case Nil
  then show ?case by simp
next
  case (Cons c calls)
  obtain now k where c: "c = (now, k)" by (cases c)
  from Cons.prems c have same: "take 10 now = daily_date t" and pos: "0 \<le> spend_of k"
    by auto
  from ledger_step_Some [of now k t] obtain row where
    row: "ledger_step (now, k) (Some t) = Some row" "daily_date row = take 10 now"
      "daily_amount row = (if daily_date t \<noteq> take 10 now then 0 else daily_amount t + spend_of k)"
    by blast
  from row same pos Cons.prems(1) have "DAILY_SPENDING_LIMIT \<le> daily_amount row" "daily_date row = daily_date t"
    by auto
  with Cons.IH [of row] Cons.prems(2) row c show ?case
    by auto
qed

lemma run_keeps_monthly:
  assumes "MONTHLY_SPENDING_LIMIT \<le> monthly_amount t"
    and "\<forall>c\<in>set calls. take 7 (fst c) = monthly_month t \<and> 0 \<le> spend_of (snd c)"
  shows "\<exists>row. ledger_run calls (Some t) = Some row \<and> monthly_month row = monthly_month t
           \<and> MONTHLY_SPENDING_LIMIT \<le> monthly_amount row"
  using assms
proof (induction calls arbitrary: t)
  case Nil
  then show ?case by simp
next
  case (Cons c calls)
  obtain now k where c: "c = (now, k)" by (cases c)
  from Cons.prems c have same: "take 7 now = monthly_month t" and pos: "0 \<le> spend_of k"
    by auto
  from ledger_step_Some [of now k t] obtain row where
    row: "ledger_step (now, k) (Some t) = Some row" "monthly_month row = take 7 now"
      "monthly_amount row = (if monthly_month t \<noteq> take 7 now then 0 else monthly_amount t + spend_of k)"
    by blast
  from row same pos Cons.prems(1) have "MONTHLY_SPENDING_LIMIT \<le> monthly_amount row" "monthly_month row = monthly_month t"
    by auto
  with Cons.IH [of row] Cons.prems(2) row c show ?case
    by auto
qed

lemma isSystemPaused_reading:
  "fst (isSystemPaused now (Some t)) =
     (DAILY_SPENDING_LIMIT \<le> (if daily_date t \<noteq> take 10 now then 0 else daily_amount t)
      \<or> MONTHLY_SPENDING_LIMIT \<le> (if monthly_month t \<noteq> take 7 now then 0 else monthly_amount t))"
proof -
  obtain tr row where r: "reset_periods now t = (tr, row)"
    by (cases "reset_periods now t")
  from reset_periods_agree [OF r] reset_periods_row [of now t] r
  have "daily_amount tr = (if daily_date t \<noteq> take 10 now then 0 else daily_amount t)"
    and "monthly_amount tr = (if monthly_month t \<noteq> take 7 now then 0 else monthly_amount t)"
    by auto
  then show ?thesis
    by (simp add: isSystemPaused_def checkSpendingLimits_def getOrResetSpending_def r Let_def)
qed

text \<open>
  Claim C3. After every \<open>checkSpendingLimits\<close> and every \<open>trackSpending\<close> the
  stored \<open>paused\<close> flag, which is also the value returned, is true exactly when the
  daily accumulator has reached \<open>DAILY_SPENDING_LIMIT\<close> or the monthly accumulator has
  reached \<open>MONTHLY_SPENDING_LIMIT\<close>. A flag tripped by the daily accumulator reads true
  after any run of calls (spends non-negative) made on that day, whatever the month of
  the clock readings, so a monthly rollover does not clear it; a flag tripped by the
  monthly accumulator reads true after any run of calls made in that month, whatever the
  day, so a daily rollover does not clear it. When the period of the only accumulator at
  its ceiling has rolled over, the flag reads false.
\<close>

theorem paused_flag_follows_ceilings:
  "(\<forall>now db p db'. checkSpendingLimits now db = (p, db') \<longrightarrow>
       (\<exists>row. db' = Some row \<and> paused row = p \<and>
          p = (DAILY_SPENDING_LIMIT \<le> daily_amount row \<or> MONTHLY_SPENDING_LIMIT \<le> monthly_amount row)))
   \<and> (\<forall>amount now db p db'. trackSpending amount now db = (p, db') \<longrightarrow>
       (\<exists>row. db' = Some row \<and> paused row = p \<and>
          p = (DAILY_SPENDING_LIMIT \<le> daily_amount row \<or> MONTHLY_SPENDING_LIMIT \<le> monthly_amount row)))
   \<and> (\<forall>(t::tracker) calls now. DAILY_SPENDING_LIMIT \<le> daily_amount t
          \<and> (\<forall>c\<in>set calls. take 10 (fst c) = daily_date t \<and> 0 \<le> spend_of (snd c))
          \<and> take 10 now = daily_date t
        \<longrightarrow> fst (isSystemPaused now (ledger_run calls (Some t))))
   \<and> (\<forall>(t::tracker) calls now. MONTHLY_SPENDING_LIMIT \<le> monthly_amount t
          \<and> (\<forall>c\<in>set calls. take 7 (fst c) = monthly_month t \<and> 0 \<le> spend_of (snd c))
          \<and> take 7 now = monthly_month t
        \<longrightarrow> fst (isSystemPaused now (ledger_run calls (Some t))))
   \<and> (\<forall>(t::tracker) now. take 10 now \<noteq> daily_date t \<and> take 7 now = monthly_month t
          \<and> monthly_amount t < MONTHLY_SPENDING_LIMIT
        \<longrightarrow> \<not> fst (isSystemPaused now (Some t)))
   \<and> (\<forall>(t::tracker) now. take 7 now \<noteq> monthly_month t \<and> take 10 now = daily_date t
          \<and> daily_amount t < DAILY_SPENDING_LIMIT
        \<longrightarrow> \<not> fst (isSystemPaused now (Some t)))"
proof (intro conjI allI impI)
  fix now db p db'
  assume "checkSpendingLimits now db = (p, db')"
  then show "\<exists>row. db' = Some row \<and> paused row = p \<and>
          p = (DAILY_SPENDING_LIMIT \<le> daily_amount row \<or> MONTHLY_SPENDING_LIMIT \<le> monthly_amount row)"
    by (rule checkSpendingLimits_flag)
next
  fix amount now db p db'
  assume "trackSpending amount now db = (p, db')"
  then show "\<exists>row. db' = Some row \<and> paused row = p \<and>
          p = (DAILY_SPENDING_LIMIT \<le> daily_amount row \<or> MONTHLY_SPENDING_LIMIT \<le> monthly_amount row)"
    unfolding trackSpending_def by (rule checkSpendingLimits_flag)
next
  fix t :: tracker and calls now
  assume a: "DAILY_SPENDING_LIMIT \<le> daily_amount t
          \<and> (\<forall>c\<in>set calls. take 10 (fst c) = daily_date t \<and> 0 \<le> spend_of (snd c))
          \<and> take 10 now = daily_date t"
  then obtain row where "ledger_run calls (Some t) = Some row" "daily_date row = daily_date t"
     "DAILY_SPENDING_LIMIT \<le> daily_amount row"
    using run_keeps_daily [of t calls] by blast
  with a show "fst (isSystemPaused now (ledger_run calls (Some t)))"
    by (simp add: isSystemPaused_reading)
next
  fix t :: tracker and calls now
  assume a: "MONTHLY_SPENDING_LIMIT \<le> monthly_amount t
          \<and> (\<forall>c\<in>set calls. take 7 (fst c) = monthly_month t \<and> 0 \<le> spend_of (snd c))
          \<and> take 7 now = monthly_month t"
  then obtain row where "ledger_run calls (Some t) = Some row" "monthly_month row = monthly_month t"
     "MONTHLY_SPENDING_LIMIT \<le> monthly_amount row"
    using run_keeps_monthly [of t calls] by blast
  with a show "fst (isSystemPaused now (ledger_run calls (Some t)))"
    by (simp add: isSystemPaused_reading)
next
  fix t :: tracker and now
  assume "take 10 now \<noteq> daily_date t \<and> take 7 now = monthly_month t
          \<and> monthly_amount t < MONTHLY_SPENDING_LIMIT"
  then show "\<not> fst (isSystemPaused now (Some t))"
    by (auto simp: isSystemPaused_reading DAILY_SPENDING_LIMIT_def)
next
  fix t :: tracker and now
  assume "take 7 now \<noteq> monthly_month t \<and> take 10 now = daily_date t
          \<and> daily_amount t < DAILY_SPENDING_LIMIT"
  then show "\<not> fst (isSystemPaused now (Some t))"
    by (auto simp: isSystemPaused_reading MONTHLY_SPENDING_LIMIT_def)
qed

theorem paused_flag_follows_ceilings_witness:
  "fst (isSystemPaused (lit ''2026-03-03T08:00:00.000Z'')
     (ledger_run [(lit ''2026-03-02T00:00:01.000Z'', IsPaused),
                  (lit ''2026-03-02T00:00:09.000Z'', RecordSpend (3 / 100))]
        (Some \<lparr>daily_date = lit ''2026-03-01'', daily_amount = 3, monthly_month = lit ''2026-03'',
              monthly_amount = 100, paused = True\<rparr>)))"
  using paused_flag_follows_ceilings
    [THEN conjunct2, THEN conjunct2, THEN conjunct2, THEN conjunct1, rule_format,
     of "\<lparr>daily_date = lit ''2026-03-01'', daily_amount = 3, monthly_month = lit ''2026-03'',
              monthly_amount = 100, paused = True\<rparr>"
        "[(lit ''2026-03-02T00:00:01.000Z'', IsPaused),
                  (lit ''2026-03-02T00:00:09.000Z'', RecordSpend (3 / 100))]"
        "lit ''2026-03-03T08:00:00.000Z''"]
  by (simp add: lit_def MONTHLY_SPENDING_LIMIT_def)

text \<open>
  Claim C2. \<open>trackSpending\<close> adds the amount to the stored accumulators first and
  applies the pending reset afterwards (inside \<open>checkSpendingLimits\<close>). At the first
  access after midnight the spend of 0.01 is therefore wiped with the old day's total:
  the daily accumulator reads 0, not 0.01 above the reset state that \<open>isSystemPaused\<close>
  would have left at the same clock reading.
\<close>

theorem trackSpending_loses_spend_at_rollover:
  "snd (trackSpending (1 / 100) (lit ''2026-03-02T00:00:01.000Z'')
     (Some \<lparr>daily_date = lit ''2026-03-01'', daily_amount = 5, monthly_month = lit ''2026-03'',
            monthly_amount = 5, paused = False\<rparr>))
   = Some \<lparr>daily_date = lit ''2026-03-02'', daily_amount = 0, monthly_month = lit ''2026-03'',
            monthly_amount = 5 + 1 / 100, paused = False\<rparr>
   \<and> snd (isSystemPaused (lit ''2026-03-02T00:00:01.000Z'')
     (Some \<lparr>daily_date = lit ''2026-03-01'', daily_amount = 5, monthly_month = lit ''2026-03'',
            monthly_amount = 5, paused = False\<rparr>))
   = Some \<lparr>daily_date = lit ''2026-03-02'', daily_amount = 0, monthly_month = lit ''2026-03'',
            monthly_amount = 5, paused = False\<rparr>"
  by (simp add: trackSpending_def isSystemPaused_def checkSpendingLimits_def getOrResetSpending_def
      reset_periods_def Let_def lit_def DAILY_SPENDING_LIMIT_def MONTHLY_SPENDING_LIMIT_def)

section \<open>Properties of the usage resolver\<close>

text \<open>
  Claim C5. Whenever \<open>isSystemPaused\<close> answers true, \<open>canCleanRecipe\<close> returns
  \<open>{allowed: false, reason: 'system_limit'}\<close> for every caller, whatever the user, the
  tier, the fingerprint and the address; the object \<open>user\<close> and the two usage tables are
  as before, so no tier or fingerprint rule was evaluated: only the ledger was accessed.
\<close>

theorem paused_overrides_every_rule:
  assumes "fst (isSystemPaused now1 (spending_tracker st))"
  shows "canCleanRecipe now1 now2 usr fingerprint ip st =
           (\<lparr>allowed = False, remaining = None, reason = Some (lit ''system_limit''),
             requiresSignup = None, upgrade = None, isAnonymous = None, message = None\<rparr>,
            usr,
            st\<lparr>spending_tracker := snd (isSystemPaused now1 (spending_tracker st))\<rparr>)"
  using assms
  by (cases "isSystemPaused now1 (spending_tracker st)")
     (simp add: canCleanRecipe_def verdict_def)

theorem paused_overrides_every_rule_witness:
  "canCleanRecipe (lit ''2026-03-01T10:00:00.000Z'') (lit ''2026-03-01T10:00:00.100Z'')
     (Some \<lparr>user_id = 7, subscription = Some (lit ''pro''), recipes_used_this_month = 0,
            total_recipes_ever = 12, month_started = lit ''2026-03''\<rparr>)
     (Some (lit ''fp-1'')) None
     \<lparr>spending_tracker = Some \<lparr>daily_date = lit ''2026-03-01'', daily_amount = 10,
         monthly_month = lit ''2026-03'', monthly_amount = 40, paused = True\<rparr>,
      users = Map.empty, anonymous_usage = Map.empty\<rparr>
   = (\<lparr>allowed = False, remaining = None, reason = Some (lit ''system_limit''),
       requiresSignup = None, upgrade = None, isAnonymous = None, message = None\<rparr>,
      Some \<lparr>user_id = 7, subscription = Some (lit ''pro''), recipes_used_this_month = 0,
            total_recipes_ever = 12, month_started = lit ''2026-03''\<rparr>,
      \<lparr>spending_tracker = Some \<lparr>daily_date = lit ''2026-03-01'', daily_amount = 10,
         monthly_month = lit ''2026-03'', monthly_amount = 40, paused = True\<rparr>,
      users = Map.empty, anonymous_usage = Map.empty\<rparr>)"
  using paused_overrides_every_rule
    [of "lit ''2026-03-01T10:00:00.000Z''"
        "\<lparr>spending_tracker = Some \<lparr>daily_date = lit ''2026-03-01'', daily_amount = 10,
         monthly_month = lit ''2026-03'', monthly_amount = 40, paused = True\<rparr>,
      users = Map.empty, anonymous_usage = Map.empty\<rparr>"
        "lit ''2026-03-01T10:00:00.100Z''"
        "Some \<lparr>user_id = 7, subscription = Some (lit ''pro''), recipes_used_this_month = 0,
            total_recipes_ever = 12, month_started = lit ''2026-03''\<rparr>"
        "Some (lit ''fp-1'')" None]
  by (simp add: isSystemPaused_def checkSpendingLimits_def getOrResetSpending_def
      reset_periods_def Let_def lit_def DAILY_SPENDING_LIMIT_def MONTHLY_SPENDING_LIMIT_def)

text \<open>
  Claim C6. When the ledger is not paused, a user with subscription \<open>pro\<close> gets
  \<open>{allowed: true}\<close> whatever the usage; a \<open>basic\<close> user is allowed exactly while the
  usage of the current month is below 20 and every other signed-up user exactly while it
  is below 3. The usage of the current month is \<open>recipes_used_this_month\<close>, read as
  zero when \<open>month_started\<close> is not the current month (the reset that
  \<open>canCleanRecipe\<close> applies first).
\<close>

theorem tier_ceilings:
  assumes "\<not> fst (isSystemPaused now1 (spending_tracker st))"
  shows "(subscription u = Some (lit ''pro'') \<longrightarrow>
            fst (canCleanRecipe now1 now2 (Some u) fingerprint ip st) =
              \<lparr>allowed = True, remaining = None, reason = None, requiresSignup = None,
               upgrade = None, isAnonymous = None, message = None\<rparr>)
       \<and> (subscription u = Some (lit ''basic'') \<longrightarrow>
            allowed (fst (canCleanRecipe now1 now2 (Some u) fingerprint ip st)) =
              ((if month_started u \<noteq> take 7 now2 then 0 else recipes_used_this_month u) < 20))
       \<and> (subscription u \<noteq> Some (lit ''pro'') \<and> subscription u \<noteq> Some (lit ''basic'') \<longrightarrow>
            allowed (fst (canCleanRecipe now1 now2 (Some u) fingerprint ip st)) =
              ((if month_started u \<noteq> take 7 now2 then 0 else recipes_used_this_month u) < 3))"
  using assms
  by (cases "isSystemPaused now1 (spending_tracker st)")
     (auto simp: canCleanRecipe_def verdict_def resetMonthlyUsageIfNeeded_def Let_def
        BASIC_RECIPES_PER_MONTH_def FREE_RECIPES_PER_MONTH_def lit_def)

text \<open>
  Claim C7. When the ledger is not paused and no user is signed in: a fingerprint whose
  row has \<open>recipes_used = INITIAL_FREE_RECIPES - 1\<close> is allowed with \<open>remaining = 1\<close>
  (the object also carries \<open>isAnonymous: true\<close>); with \<open>recipes_used\<close> at
  \<open>INITIAL_FREE_RECIPES\<close> or more it is denied with reason \<open>initial_limit\<close> and
  \<open>requiresSignup: true\<close> (and the message); without a fingerprint the answer is
  \<open>{allowed: false, reason: 'no_tracking'}\<close>.
\<close>

theorem anonymous_allowance:
  assumes "\<not> fst (isSystemPaused now1 (spending_tracker st))"
  shows "(truthy_string fingerprint \<and> anonymous_usage st (the fingerprint) = Some row
            \<and> recipes_used row = INITIAL_FREE_RECIPES - 1 \<longrightarrow>
            fst (canCleanRecipe now1 now2 None fingerprint ip st) =
              \<lparr>allowed = True, remaining = Some 1, reason = None, requiresSignup = None,
               upgrade = None, isAnonymous = Some True, message = None\<rparr>)
       \<and> (truthy_string fingerprint \<and> anonymous_usage st (the fingerprint) = Some row
            \<and> recipes_used row \<ge> INITIAL_FREE_RECIPES \<longrightarrow>
            fst (canCleanRecipe now1 now2 None fingerprint ip st) =
              \<lparr>allowed = False, remaining = None, reason = Some (lit ''initial_limit''),
               requiresSignup = Some True, upgrade = None, isAnonymous = None,
               message = Some (lit ''You've used your 10 free recipes! Sign up free to get 3 more each month.'')\<rparr>)
       \<and> (\<not> truthy_string fingerprint \<longrightarrow>
            fst (canCleanRecipe now1 now2 None fingerprint ip st) =
              \<lparr>allowed = False, remaining = None, reason = Some (lit ''no_tracking''),
               requiresSignup = None, upgrade = None, isAnonymous = None, message = None\<rparr>)"
  using assms
  by (cases "isSystemPaused now1 (spending_tracker st)")
     (auto simp: canCleanRecipe_def verdict_def getAnonymousUsage_def Let_def
        INITIAL_FREE_RECIPES_def)


theorem tier_ceilings_witness:
  "allowed (fst (canCleanRecipe (lit ''2026-03-01T10:00:00.000Z'') (lit ''2026-03-01T10:00:00.100Z'')
     (Some \<lparr>user_id = 7, subscription = Some (lit ''basic''), recipes_used_this_month = 19,
            total_recipes_ever = 40, month_started = lit ''2026-03''\<rparr>)
     None None
     \<lparr>spending_tracker = None, users = Map.empty, anonymous_usage = Map.empty\<rparr>))
   \<and> \<not> allowed (fst (canCleanRecipe (lit ''2026-03-01T10:00:00.000Z'') (lit ''2026-03-01T10:00:00.100Z'')
     (Some \<lparr>user_id = 7, subscription = Some (lit ''basic''), recipes_used_this_month = 20,
            total_recipes_ever = 40, month_started = lit ''2026-03''\<rparr>)
     None None
     \<lparr>spending_tracker = None, users = Map.empty, anonymous_usage = Map.empty\<rparr>))"
  using tier_ceilings
    [of "lit ''2026-03-01T10:00:00.000Z''"
        "\<lparr>spending_tracker = None, users = Map.empty, anonymous_usage = Map.empty\<rparr>"
        "\<lparr>user_id = 7, subscription = Some (lit ''basic''), recipes_used_this_month = 19,
            total_recipes_ever = 40, month_started = lit ''2026-03''\<rparr>"
        "lit ''2026-03-01T10:00:00.100Z''" None None]
    tier_ceilings
    [of "lit ''2026-03-01T10:00:00.000Z''"
        "\<lparr>spending_tracker = None, users = Map.empty, anonymous_usage = Map.empty\<rparr>"
        "\<lparr>user_id = 7, subscription = Some (lit ''basic''), recipes_used_this_month = 20,
            total_recipes_ever = 40, month_started = lit ''2026-03''\<rparr>"
        "lit ''2026-03-01T10:00:00.100Z''" None None]
  by (simp add: isSystemPaused_def checkSpendingLimits_def getOrResetSpending_def
      initSpendingTable_def reset_periods_def Let_def lit_def DAILY_SPENDING_LIMIT_def
      MONTHLY_SPENDING_LIMIT_def)

theorem anonymous_allowance_witness:
  "fst (canCleanRecipe (lit ''2026-03-01T10:00:00.000Z'') (lit ''2026-03-01T10:00:00.100Z'')
     None (Some (lit ''fp-1'')) None
     \<lparr>spending_tracker = None, users = Map.empty,
      anonymous_usage = [lit ''fp-1'' \<mapsto> \<lparr>recipes_used = 9, ip_address = None, last_seen = None\<rparr>]\<rparr>)
   = \<lparr>allowed = True, remaining = Some 1, reason = None, requiresSignup = None,
      upgrade = None, isAnonymous = Some True, message = None\<rparr>"
  using anonymous_allowance
    [of "lit ''2026-03-01T10:00:00.000Z''"
        "\<lparr>spending_tracker = None, users = Map.empty,
      anonymous_usage = [lit ''fp-1'' \<mapsto> \<lparr>recipes_used = 9, ip_address = None, last_seen = None\<rparr>]\<rparr>"
        "Some (lit ''fp-1'')"
        "\<lparr>recipes_used = 9, ip_address = None, last_seen = None\<rparr>"
        "lit ''2026-03-01T10:00:00.100Z''" None]
  by (simp add: isSystemPaused_def checkSpendingLimits_def getOrResetSpending_def
      initSpendingTable_def reset_periods_def Let_def lit_def DAILY_SPENDING_LIMIT_def
      MONTHLY_SPENDING_LIMIT_def truthy_string_def INITIAL_FREE_RECIPES_def)

section \<open>Properties of the validator\<close>

lemma get_assign: "get (assign obj k v) k' = (if lit k = lit k' then v else get obj k')"
  by (simp add: get_def assign_def update_conv')

lemma some_exn_Inr: "some_exn f xs = Inr b \<Longrightarrow> b = (\<exists>x\<in>set xs. f x = Inr True)"
  by (induction xs) (auto split: sum.splits bool.splits)

lemma map_exn_Inr: "map_exn f xs = Inr ys \<Longrightarrow> x \<in> set xs \<Longrightarrow> \<exists>y\<in>set ys. f x = Inr y"
  by (induction xs arbitrary: ys) (auto split: sum.splits)

lemma filter_exn_Inr: "filter_exn f xs = Inr ys \<Longrightarrow> x \<in> set xs \<Longrightarrow> \<exists>b. f x = Inr b"
  by (induction xs arbitrary: ys) (auto split: sum.splits)

lemma filter_exn_set: "filter_exn f xs = Inr ys \<Longrightarrow> ys = filter (\<lambda>x. f x = Inr True) xs"
  by (induction xs arbitrary: ys) (auto split: sum.splits)

lemma coerce_step_instruction:
  "coerce_step (JObj kvs) = Inr y \<Longrightarrow> \<exists>kvs'. y = JObj kvs' \<and> get kvs' ''instruction'' = get kvs ''instruction''"
  by (auto simp: get_assign lit_def)

lemma keep_instruction_Inr:
  "keep_instruction v = Inr b \<Longrightarrow> v = JUndefined \<or> v = JNull \<or> (\<exists>s. v = JStr s)"
  by (cases v) auto

lemma surviving_instruction:
  assumes "map_exn coerce_step steps = Inr coerced" "filter_exn keep_step coerced = Inr kept"
    and "JObj kvs \<in> set steps"
  shows "get kvs ''instruction'' = JUndefined \<or> get kvs ''instruction'' = JNull
           \<or> (\<exists>s. get kvs ''instruction'' = JStr s)"
proof -
  from map_exn_Inr [OF assms(1) assms(3)] obtain y where
    y: "y \<in> set coerced" "coerce_step (JObj kvs) = Inr y" by blast
  from coerce_step_instruction [OF y(2)] obtain kvs' where
    k: "y = JObj kvs'" "get kvs' ''instruction'' = get kvs ''instruction''" by blast
  from filter_exn_Inr [OF assms(2) y(1)] k obtain b where
    "keep_instruction (get kvs ''instruction'') = Inr b" by auto
  then show ?thesis by (rule keep_instruction_Inr)
qed

lemma keep_step_TypeError: "keep_step s = Inl e \<Longrightarrow> e = TypeError"
  by (cases s; cases "get (case s of JObj kvs \<Rightarrow> kvs | _ \<Rightarrow> []) ''instruction''") auto

lemma filter_exn_TypeError:
  "filter_exn keep_step xs = Inl e \<Longrightarrow> e = TypeError"
  by (induction xs) (auto split: sum.splits dest: keep_step_TypeError)

lemma object_instruction_throws:
  assumes "JObj kvs \<in> set steps" "get kvs ''instruction'' = JObj props"
    and "map_exn coerce_step steps = Inr coerced"
  shows "filter_exn keep_step coerced = Inl TypeError"
proof (cases "filter_exn keep_step coerced")
  case (Inl e)
  then show ?thesis by (simp add: filter_exn_TypeError)
next
  case (Inr kept)
  from surviving_instruction [OF assms(3) Inr assms(1)] assms(2) show ?thesis by simp
qed

lemma step_too_long_iff:
  assumes "step_too_long s = Inr b"
    and "\<And>kvs. s = JObj kvs \<Longrightarrow> get kvs ''instruction'' = JUndefined \<or> get kvs ''instruction'' = JNull
           \<or> (\<exists>t. get kvs ''instruction'' = JStr t)"
  shows "b = (\<exists>t. instruction_of s = Some t \<and> 400 < length t)"
  using assms by (cases s) (auto simp: MAX_STEP_LENGTH_def)

lemma fill_defaults_steps:
  "elements (get (fill_defaults r) ''steps'') = elements (get r ''steps'')"
  by (cases "get r ''steps''") (auto simp: fill_defaults_def Let_def get_assign lit_def)

lemma fill_defaults_ingredients:
  "elements (get (fill_defaults r) ''ingredients'') = elements (get r ''ingredients'')"
  by (cases "get r ''ingredients''") (auto simp: fill_defaults_def Let_def get_assign lit_def)

lemma validateAndFixRecipe_Inr:
  assumes "validateAndFixRecipe recipe = Inr (fixed, issues)"
  obtains long coerced kept where
    "some_exn step_too_long (elements (get recipe ''steps'')) = Inr long"
    "map_exn coerce_step (elements (get recipe ''steps'')) = Inr coerced"
    "filter_exn keep_step coerced = Inr kept"
    "fixed = assign (fill_defaults recipe) ''steps'' (JArr kept)"
    "issues = (if long then [steps_too_long] else [])
                @ (if length (elements (get recipe ''ingredients'')) > 5
                     \<and> length (elements (get recipe ''steps'')) < 3
                   then [too_few_steps] else [])"
  using assms unfolding validateAndFixRecipe_def Let_def fill_defaults_steps fill_defaults_ingredients
  by (auto split: sum.splits)

lemma validate_tags:
  assumes "validateAndFixRecipe recipe = Inr (fixed, issues)"
  shows "(steps_too_long \<in> set issues) =
           (\<exists>s\<in>set (elements (get recipe ''steps'')). \<exists>t. instruction_of s = Some t \<and> 400 < length t)"
    and "(too_few_steps \<in> set issues) =
           (5 < length (elements (get recipe ''ingredients''))
            \<and> length (elements (get recipe ''steps'')) < 3)"
    and "elements (get fixed ''steps'') =
           filter (\<lambda>s. keep_step s = Inr True) (elements (get fixed ''steps''))"
proof -
  from assms obtain long coerced kept where v:
    "some_exn step_too_long (elements (get recipe ''steps'')) = Inr long"
    "map_exn coerce_step (elements (get recipe ''steps'')) = Inr coerced"
    "filter_exn keep_step coerced = Inr kept"
    "fixed = assign (fill_defaults recipe) ''steps'' (JArr kept)"
    "issues = (if long then [steps_too_long] else [])
                @ (if length (elements (get recipe ''ingredients'')) > 5
                     \<and> length (elements (get recipe ''steps'')) < 3
                   then [too_few_steps] else [])"
    by (rule validateAndFixRecipe_Inr)
  have ok: "get kvs ''instruction'' = JUndefined \<or> get kvs ''instruction'' = JNull
           \<or> (\<exists>t. get kvs ''instruction'' = JStr t)"
    if "JObj kvs \<in> set (elements (get recipe ''steps''))" for kvs
    using surviving_instruction [OF v(2) v(3) that] .
  have each: "(step_too_long s = Inr True) = (\<exists>t. instruction_of s = Some t \<and> 400 < length t)"
    if s: "s \<in> set (elements (get recipe ''steps''))" for s
  proof (cases s)
    case (JObj kvs)
    with ok [of kvs] s show ?thesis by (auto simp: MAX_STEP_LENGTH_def)
  qed (auto simp: MAX_STEP_LENGTH_def)
  from some_exn_Inr [OF v(1)] each
  have "long = (\<exists>s\<in>set (elements (get recipe ''steps'')). \<exists>t. instruction_of s = Some t \<and> 400 < length t)"
    by auto
  with v(5) show "(steps_too_long \<in> set issues) =
           (\<exists>s\<in>set (elements (get recipe ''steps'')). \<exists>t. instruction_of s = Some t \<and> 400 < length t)"
    by auto
  from v(5) show "(too_few_steps \<in> set issues) =
           (5 < length (elements (get recipe ''ingredients''))
            \<and> length (elements (get recipe ''steps'')) < 3)"
    by auto
  from filter_exn_set [OF v(3)] have "kept = filter (\<lambda>s. keep_step s = Inr True) kept"
    by simp
  with v(4) show "elements (get fixed ''steps'') =
           filter (\<lambda>s. keep_step s = Inr True) (elements (get fixed ''steps''))"
    by (simp add: get_assign)
qed


lemma surviving_steps:
  assumes "validateAndFixRecipe recipe = Inr (fixed, issues)"
    and "s \<in> set (elements (get fixed ''steps''))"
  shows "\<exists>kvs t. s = JObj kvs \<and> get kvs ''instruction'' = JStr t \<and> 10 < length (trim t)"
proof -
  from validate_tags(3) [OF assms(1)]
  have "\<forall>x\<in>set (elements (get fixed ''steps'')). keep_step x = Inr True"
    by (simp only: filter_id_conv [symmetric])
  with assms(2) have k: "keep_step s = Inr True"
    by blast
  then obtain kvs where kvs: "s = JObj kvs"
    by (cases s) auto
  with k have "keep_instruction (get kvs ''instruction'') = Inr True" by simp
  then obtain t where "get kvs ''instruction'' = JStr t" "10 < length (trim t)"
    by (cases "get kvs ''instruction''") auto
  with kvs show ?thesis by blast
qed

lemma six_ingredients_no_steps:
  "validateAndFixRecipe
     [(lit ''title'', JStr (lit ''Cake'')),
      (lit ''ingredients'', JArr [JStr (lit ''flour''), JStr (lit ''sugar''), JStr (lit ''eggs''),
         JStr (lit ''butter''), JStr (lit ''milk''), JStr (lit ''salt'')]),
      (lit ''steps'', JArr [JStr (lit ''Mix.''), JStr (lit ''Bake.''), JStr (lit ''Serve.'')])]
   = Inr ([(lit ''title'', JStr (lit ''Cake'')),
      (lit ''ingredients'', JArr [JStr (lit ''flour''), JStr (lit ''sugar''), JStr (lit ''eggs''),
         JStr (lit ''butter''), JStr (lit ''milk''), JStr (lit ''salt'')]),
      (lit ''steps'', JArr []),
      (lit ''servings'', JNum 4)], [])"
  by (simp add: validateAndFixRecipe_def fill_defaults_def Let_def get_def assign_def lit_def
      MAX_STEP_LENGTH_def trim_def is_space_def)

text \<open>
  Claim C10. Whenever \<open>validateAndFixRecipe\<close> returns, \<open>steps_too_long\<close> is among the
  issues exactly when some step of the raw list (a string, or an object with a string
  \<open>instruction\<close>) is longer than 400 code units, so that 400 does not raise the tag and
  401 does, and \<open>too_few_steps\<close> exactly when there are more than 5 ingredients and fewer
  than 3 raw steps; the steps returned are the coerced ones whose instruction trims to
  more than 10 code units. The tags thus look at the list before coercion and before
  short steps are dropped: some recipe with more than 5 ingredients comes back with
  fewer than 3 steps and no issue (six ingredients and the steps \<open>Mix.\<close>, \<open>Bake.\<close>,
  \<open>Serve.\<close>, all three dropped).
\<close>

theorem tags_decided_on_raw_steps:
  "(\<forall>recipe fixed issues. validateAndFixRecipe recipe = Inr (fixed, issues) \<longrightarrow>
      (steps_too_long \<in> set issues) =
        (\<exists>s\<in>set (elements (get recipe ''steps'')). \<exists>t. instruction_of s = Some t \<and> 400 < length t)
      \<and> (too_few_steps \<in> set issues) =
        (5 < length (elements (get recipe ''ingredients''))
         \<and> length (elements (get recipe ''steps'')) < 3)
      \<and> (\<forall>s\<in>set (elements (get fixed ''steps'')).
            \<exists>kvs t. s = JObj kvs \<and> get kvs ''instruction'' = JStr t \<and> 10 < length (trim t)))
   \<and> (\<exists>recipe fixed. validateAndFixRecipe recipe = Inr (fixed, [])
         \<and> 5 < length (elements (get recipe ''ingredients''))
         \<and> length (elements (get fixed ''steps'')) < 3)"
proof (intro conjI allI impI ballI)
  fix recipe fixed issues
  assume v: "validateAndFixRecipe recipe = Inr (fixed, issues)"
  show "(steps_too_long \<in> set issues) =
        (\<exists>s\<in>set (elements (get recipe ''steps'')). \<exists>t. instruction_of s = Some t \<and> 400 < length t)"
    by (rule validate_tags(1) [OF v])
  show "(too_few_steps \<in> set issues) =
        (5 < length (elements (get recipe ''ingredients''))
         \<and> length (elements (get recipe ''steps'')) < 3)"
    by (rule validate_tags(2) [OF v])
  fix s assume "s \<in> set (elements (get fixed ''steps''))"
  with v show "\<exists>kvs t. s = JObj kvs \<and> get kvs ''instruction'' = JStr t \<and> 10 < length (trim t)"
    by (rule surviving_steps)
next
  show "\<exists>recipe fixed. validateAndFixRecipe recipe = Inr (fixed, [])
         \<and> 5 < length (elements (get recipe ''ingredients''))
         \<and> length (elements (get fixed ''steps'')) < 3"
    by (intro exI conjI, rule six_ingredients_no_steps) (simp_all add: get_def lit_def)
qed

theorem tags_decided_on_raw_steps_witness:
  "validateAndFixRecipe [(lit ''steps'', JArr [JStr (replicate 401 0x61)])]
     = Inr ([(lit ''steps'', JArr [JObj [(lit ''instruction'', JStr (replicate 401 0x61)),
                                        (lit ''ingredients'', JArr [])]]),
             (lit ''title'', JStr (lit ''Recipe'')), (lit ''servings'', JNum 4),
             (lit ''ingredients'', JArr [])],
            [steps_too_long])
   \<and> validateAndFixRecipe [(lit ''steps'', JArr [JStr (replicate 400 0x61)])]
     = Inr ([(lit ''steps'', JArr [JObj [(lit ''instruction'', JStr (replicate 400 0x61)),
                                        (lit ''ingredients'', JArr [])]]),
             (lit ''title'', JStr (lit ''Recipe'')), (lit ''servings'', JNum 4),
             (lit ''ingredients'', JArr [])],
            [])
   \<and> steps_too_long \<in> set [steps_too_long]"
proof -
  have a: "validateAndFixRecipe [(lit ''steps'', JArr [JStr (replicate 401 0x61)])]
     = Inr ([(lit ''steps'', JArr [JObj [(lit ''instruction'', JStr (replicate 401 0x61)),
                                        (lit ''ingredients'', JArr [])]]),
             (lit ''title'', JStr (lit ''Recipe'')), (lit ''servings'', JNum 4),
             (lit ''ingredients'', JArr [])],
            [steps_too_long])"
    by (simp add: validateAndFixRecipe_def fill_defaults_def Let_def get_def assign_def lit_def
        MAX_STEP_LENGTH_def trim_def is_space_def)
  have b: "validateAndFixRecipe [(lit ''steps'', JArr [JStr (replicate 400 0x61)])]
     = Inr ([(lit ''steps'', JArr [JObj [(lit ''instruction'', JStr (replicate 400 0x61)),
                                        (lit ''ingredients'', JArr [])]]),
             (lit ''title'', JStr (lit ''Recipe'')), (lit ''servings'', JNum 4),
             (lit ''ingredients'', JArr [])],
            [])"
    by (simp add: validateAndFixRecipe_def fill_defaults_def Let_def get_def assign_def lit_def
        MAX_STEP_LENGTH_def trim_def is_space_def)
  from tags_decided_on_raw_steps [THEN conjunct1, rule_format, OF a]
  have "steps_too_long \<in> set [steps_too_long]"
    by (simp add: get_def lit_def)
  with a b show ?thesis by simp
qed

section \<open>Properties of the rate limiter\<close>

lemma rateLimiter_in_window:
  assumes "requests k = Some d" "\<not> now - windowStart d > windowMs"
  shows "rateLimiter windowMs max_req k now requests =
           (if count d + 1 > max_req then Rejected429 else Next,
            requests(k \<mapsto> d\<lparr>count := count d + 1\<rparr>))"
  using assms by (simp add: rateLimiter_def Let_def)

lemma rateLimiter_other_key:
  "key \<noteq> k \<Longrightarrow> snd (rateLimiter windowMs max_req key now requests) k = requests k"
  by (simp add: rateLimiter_def Let_def)

lemma passes_in_window:
  assumes "requests k = Some d" "0 \<le> count d"
    and "\<forall>e\<in>set es. event_time e - windowStart d \<le> 60000"
  shows "int (passes k es requests) \<le> max 0 (10 - count d)"
  using assms
proof (induction es arbitrary: requests d)
  case Nil
  then show ?case by simp
next
  case (Cons e es)
  show ?case
  proof (cases e)
    case (RecipeRequest key now)
    show ?thesis
    proof (cases "key = k")
      case True
      from Cons.prems RecipeRequest have inw: "\<not> now - windowStart d > 60000" by auto
      let ?d' = "d\<lparr>count := count d + 1\<rparr>"
      let ?r' = "requests(k \<mapsto> ?d')"
      have step: "recipeRateLimiter k now requests = (if count d + 1 > 10 then Rejected429 else Next, ?r')"
        unfolding recipeRateLimiter_def
        using rateLimiter_in_window [where requests = requests and k = k and d = d and now = now
            and windowMs = 60000 and max_req = 10] Cons.prems(1) inw by simp
      have "int (passes k es ?r') \<le> max 0 (10 - count ?d')"
        by (rule Cons.IH) (use Cons.prems in auto)
      with step True RecipeRequest Cons.prems(2) show ?thesis
        by (auto split: if_splits)
    next
      case False
      then have "snd (recipeRateLimiter key now requests) k = Some d"
        using Cons.prems(1) by (simp add: recipeRateLimiter_def rateLimiter_other_key)
      then have "int (passes k es (snd (recipeRateLimiter key now requests))) \<le> max 0 (10 - count d)"
        by (rule Cons.IH) (use Cons.prems in auto)
      with False RecipeRequest show ?thesis by simp
    qed
  next
    case (ApiRequest key now)
    show ?thesis
    proof (cases "key = k")
      case True
      from Cons.prems ApiRequest have inw: "\<not> now - windowStart d > 60000" by auto
      let ?d' = "d\<lparr>count := count d + 1\<rparr>"
      let ?r' = "requests(k \<mapsto> ?d')"
      have step: "snd (apiRateLimiter k now requests) = ?r'"
        unfolding apiRateLimiter_def
        using rateLimiter_in_window [where requests = requests and k = k and d = d and now = now
            and windowMs = 60000 and max_req = 100] Cons.prems(1) inw by simp
      have "int (passes k es ?r') \<le> max 0 (10 - count ?d')"
        by (rule Cons.IH) (use Cons.prems in auto)
      with step True ApiRequest Cons.prems(2) show ?thesis
        by (auto split: if_splits)
    next
      case False
      then have "snd (apiRateLimiter key now requests) k = Some d"
        using Cons.prems(1) by (simp add: apiRateLimiter_def rateLimiter_other_key)
      then have "int (passes k es (snd (apiRateLimiter key now requests))) \<le> max 0 (10 - count d)"
        by (rule Cons.IH) (use Cons.prems in auto)
      with False ApiRequest show ?thesis by simp
    qed
  next
    case (CleanupTick now)
    with Cons.prems have "cleanup now requests k = Some d"
      by (auto simp: cleanup_def)
    then have "int (passes k es (cleanup now requests)) \<le> max 0 (10 - count d)"
      by (rule Cons.IH) (use Cons.prems in auto)
    with CleanupTick show ?thesis by simp
  qed
qed

lemma fresh_window:
  assumes "requests k = None \<or> (\<exists>d. requests k = Some d \<and> now - windowStart d > windowMs)"
    and "0 < max_req"
  shows "rateLimiter windowMs max_req k now requests =
           (Next, requests(k \<mapsto> \<lparr>windowStart = now, count = 1\<rparr>))"
  using assms by (auto simp: rateLimiter_def Let_def)

lemma passes_fresh_window:
  assumes "requests k = None \<or> (\<exists>d. requests k = Some d \<and> now - windowStart d > 60000)"
    and "\<forall>e\<in>set es. event_time e - now \<le> 60000"
  shows "passes k (RecipeRequest k now # es) requests \<le> 10"
proof -
  have step: "recipeRateLimiter k now requests = (Next, requests(k \<mapsto> \<lparr>windowStart = now, count = 1\<rparr>))"
    unfolding recipeRateLimiter_def by (rule fresh_window) (use assms in auto)
  have "int (passes k es (requests(k \<mapsto> \<lparr>windowStart = now, count = 1\<rparr>)))
          \<le> max 0 (10 - count \<lparr>windowStart = now, count = 1\<rparr>)"
    by (rule passes_in_window) (use assms in auto)
  with step show ?thesis by simp
qed

lemma rejected_in_window:
  assumes "requests k = Some d" "10 \<le> count d" "now - windowStart d \<le> 60000"
  shows "fst (recipeRateLimiter k now requests) = Rejected429"
  using assms by (simp add: recipeRateLimiter_def rateLimiter_def Let_def)

lemma limited_rejected:
  assumes "fst (recipeRateLimiter (limiter_key_of (req_user req) (req_ip req)) now requests)
             = Rejected429"
  shows "limited h e now req (requests, st) =
           (TooManyRequests429,
            snd (recipeRateLimiter (limiter_key_of (req_user req) (req_ip req)) now requests),
            st)"
  using assms
  by (cases "recipeRateLimiter (limiter_key_of (req_user req) (req_ip req)) now requests")
     (simp add: limited_def)

lemma run_in_window:
  assumes "requests k = Some d"
    and "\<forall>e\<in>set es. event_time e - windowStart d \<le> 60000"
  shows "\<exists>d'. limiter_run es requests k = Some d' \<and> windowStart d' = windowStart d
           \<and> count d + int (passes k es requests) \<le> count d'"
  using assms
proof (induction es arbitrary: requests d)
  case Nil
  then show ?case by simp
next
  case (Cons e es)
  show ?case
  proof (cases e)
    case (RecipeRequest key now)
    show ?thesis
    proof (cases "key = k")
      case True
      from Cons.prems RecipeRequest have inw: "\<not> now - windowStart d > 60000" by auto
      let ?d' = "d\<lparr>count := count d + 1\<rparr>"
      let ?r' = "requests(k \<mapsto> ?d')"
      have step: "recipeRateLimiter k now requests = (if count d + 1 > 10 then Rejected429 else Next, ?r')"
        unfolding recipeRateLimiter_def
        using rateLimiter_in_window [where requests = requests and k = k and d = d and now = now
            and windowMs = 60000 and max_req = 10] Cons.prems(1) inw by simp
      have "\<exists>d''. limiter_run es ?r' k = Some d'' \<and> windowStart d'' = windowStart ?d'
              \<and> count ?d' + int (passes k es ?r') \<le> count d''"
        by (rule Cons.IH) (use Cons.prems in auto)
      with step True RecipeRequest show ?thesis
        by (auto split: if_splits)
    next
      case False
      then have "snd (recipeRateLimiter key now requests) k = Some d"
        using Cons.prems(1) by (simp add: recipeRateLimiter_def rateLimiter_other_key)
      then have "\<exists>d'. limiter_run es (snd (recipeRateLimiter key now requests)) k = Some d'
          \<and> windowStart d' = windowStart d
          \<and> count d + int (passes k es (snd (recipeRateLimiter key now requests))) \<le> count d'"
        by (rule Cons.IH) (use Cons.prems in auto)
      with False RecipeRequest show ?thesis by simp
    qed
  next
    case (ApiRequest key now)
    show ?thesis
    proof (cases "key = k")
      case True
      from Cons.prems ApiRequest have inw: "\<not> now - windowStart d > 60000" by auto
      let ?d' = "d\<lparr>count := count d + 1\<rparr>"
      let ?r' = "requests(k \<mapsto> ?d')"
      have step: "snd (apiRateLimiter k now requests) = ?r'"
        unfolding apiRateLimiter_def
        using rateLimiter_in_window [where requests = requests and k = k and d = d and now = now
            and windowMs = 60000 and max_req = 100] Cons.prems(1) inw by simp
      have "\<exists>d''. limiter_run es ?r' k = Some d'' \<and> windowStart d'' = windowStart ?d'
              \<and> count ?d' + int (passes k es ?r') \<le> count d''"
        by (rule Cons.IH) (use Cons.prems in auto)
      with step True ApiRequest show ?thesis
        by auto
    next
      case False
      then have "snd (apiRateLimiter key now requests) k = Some d"
        using Cons.prems(1) by (simp add: apiRateLimiter_def rateLimiter_other_key)
      then have "\<exists>d'. limiter_run es (snd (apiRateLimiter key now requests)) k = Some d'
          \<and> windowStart d' = windowStart d
          \<and> count d + int (passes k es (snd (apiRateLimiter key now requests))) \<le> count d'"
        by (rule Cons.IH) (use Cons.prems in auto)
      with False ApiRequest show ?thesis by simp
    qed
  next
    case (CleanupTick now)
    with Cons.prems have "cleanup now requests k = Some d"
      by (auto simp: cleanup_def)
    then have "\<exists>d'. limiter_run es (cleanup now requests) k = Some d'
          \<and> windowStart d' = windowStart d
          \<and> count d + int (passes k es (cleanup now requests)) \<le> count d'"
      by (rule Cons.IH) (use Cons.prems in auto)
    with CleanupTick show ?thesis by simp
  qed
qed

lemma further_request_rejected:
  assumes "requests k = None \<or> (\<exists>d. requests k = Some d \<and> now0 - windowStart d > 60000)"
    and "\<forall>ev\<in>set es. event_time ev - now0 \<le> 60000"
    and "passes k (RecipeRequest k now0 # es) requests = 10"
    and "now - now0 \<le> 60000"
  shows "fst (recipeRateLimiter k now (limiter_run (RecipeRequest k now0 # es) requests))
           = Rejected429"
proof -
  let ?r1 = "requests(k \<mapsto> \<lparr>windowStart = now0, count = 1\<rparr>)"
  have step: "recipeRateLimiter k now0 requests = (Next, ?r1)"
    unfolding recipeRateLimiter_def by (rule fresh_window) (use assms in auto)
  have "\<exists>d'. limiter_run es ?r1 k = Some d'
          \<and> windowStart d' = windowStart \<lparr>windowStart = now0, count = 1\<rparr>
          \<and> count \<lparr>windowStart = now0, count = 1\<rparr> + int (passes k es ?r1) \<le> count d'"
    by (rule run_in_window) (use assms in auto)
  then obtain d' where d': "limiter_run es ?r1 k = Some d'" "windowStart d' = now0"
    "1 + int (passes k es ?r1) \<le> count d'"
    by auto
  from assms(3) step have "passes k es ?r1 = 9" by simp
  with d' have "10 \<le> count d'" by simp
  with d' assms(4) show ?thesis
    by (simp add: step rejected_in_window)
qed

text \<open>
  Claim C9. From the request that opens a window for an identity, the strict limiter
  hands on at most 10 requests of that identity among all that arrive within 60000 ms of
  the window's start, whatever else happens to the shared map meanwhile; in general at
  most \<open>10 - count\<close> more within a window that has counted \<open>count\<close>. Once the window
  has counted 10, and so once 10 requests have passed, any further request inside it is
  rejected; a rejected request gets status 429 and
  the store (ledger and usage tables) is returned as it was, whatever the handler. A
  request arriving after the window has expired replaces it by a fresh one starting at
  that request, with count 1.
\<close>

theorem strict_limiter_window:
  "(\<forall>k (requests :: limiter_key \<rightharpoonup> rate_window) now es.
      (requests k = None \<or> (\<exists>d. requests k = Some d \<and> now - windowStart d > 60000))
      \<and> (\<forall>ev\<in>set es. event_time ev - now \<le> 60000)
      \<longrightarrow> passes k (RecipeRequest k now # es) requests \<le> 10)
   \<and> (\<forall>k (requests :: limiter_key \<rightharpoonup> rate_window) d es.
      requests k = Some d \<and> 0 \<le> count d
      \<and> (\<forall>ev\<in>set es. event_time ev - windowStart d \<le> 60000)
      \<longrightarrow> int (passes k es requests) \<le> max 0 (10 - count d))
   \<and> (\<forall>k (requests :: limiter_key \<rightharpoonup> rate_window) d now.
      requests k = Some d \<and> 10 \<le> count d \<and> now - windowStart d \<le> 60000
      \<longrightarrow> fst (recipeRateLimiter k now requests) = Rejected429)
   \<and> (\<forall>k (requests :: limiter_key \<rightharpoonup> rate_window) now0 es now.
      (requests k = None \<or> (\<exists>d. requests k = Some d \<and> now0 - windowStart d > 60000))
      \<and> (\<forall>ev\<in>set es. event_time ev - now0 \<le> 60000)
      \<and> passes k (RecipeRequest k now0 # es) requests = 10
      \<and> now - now0 \<le> 60000
      \<longrightarrow> fst (recipeRateLimiter k now (limiter_run (RecipeRequest k now0 # es) requests))
            = Rejected429)
   \<and> (\<forall>h e now (req :: request) (requests :: limiter_key \<rightharpoonup> rate_window) st.
      fst (recipeRateLimiter (limiter_key_of (req_user req) (req_ip req)) now requests)
        = Rejected429
      \<longrightarrow> limited h e now req (requests, st) =
            (TooManyRequests429,
             snd (recipeRateLimiter (limiter_key_of (req_user req) (req_ip req)) now requests),
             st))
   \<and> status TooManyRequests429 = 429
   \<and> (\<forall>k (requests :: limiter_key \<rightharpoonup> rate_window) d now.
      requests k = Some d \<and> now - windowStart d > 60000
      \<longrightarrow> recipeRateLimiter k now requests =
            (Next, requests(k \<mapsto> \<lparr>windowStart = now, count = 1\<rparr>)))"
proof (intro conjI allI impI; (elim conjE)?)
  fix k :: limiter_key and requests :: "limiter_key \<rightharpoonup> rate_window" and now es
  assume "requests k = None \<or> (\<exists>d. requests k = Some d \<and> now - windowStart d > 60000)"
    and "\<forall>ev\<in>set es. event_time ev - now \<le> 60000"
  then show "passes k (RecipeRequest k now # es) requests \<le> 10"
    by (rule passes_fresh_window)
next
  fix k :: limiter_key and requests :: "limiter_key \<rightharpoonup> rate_window" and d es
  assume "requests k = Some d" "0 \<le> count d"
    "\<forall>ev\<in>set es. event_time ev - windowStart d \<le> 60000"
  then show "int (passes k es requests) \<le> max 0 (10 - count d)"
    by (rule passes_in_window)
next
  fix k :: limiter_key and requests :: "limiter_key \<rightharpoonup> rate_window" and d now
  assume "requests k = Some d" "10 \<le> count d" "now - windowStart d \<le> 60000"
  then show "fst (recipeRateLimiter k now requests) = Rejected429"
    by (rule rejected_in_window)
next
  fix k :: limiter_key and requests :: "limiter_key \<rightharpoonup> rate_window" and now0 es now
  assume "requests k = None \<or> (\<exists>d. requests k = Some d \<and> now0 - windowStart d > 60000)"
    and "\<forall>ev\<in>set es. event_time ev - now0 \<le> 60000"
    and "passes k (RecipeRequest k now0 # es) requests = 10"
    and "now - now0 \<le> 60000"
  then show "fst (recipeRateLimiter k now (limiter_run (RecipeRequest k now0 # es) requests))
            = Rejected429"
    by (rule further_request_rejected)
next
  fix h e now and req :: request and requests :: "limiter_key \<rightharpoonup> rate_window" and st
  assume "fst (recipeRateLimiter (limiter_key_of (req_user req) (req_ip req)) now requests)
        = Rejected429"
  then show "limited h e now req (requests, st) =
            (TooManyRequests429,
             snd (recipeRateLimiter (limiter_key_of (req_user req) (req_ip req)) now requests),
             st)"
    by (rule limited_rejected)
next
  show "status TooManyRequests429 = 429" by simp
next
  fix k :: limiter_key and requests :: "limiter_key \<rightharpoonup> rate_window" and d now
  assume "requests k = Some d" "now - windowStart d > 60000"
  then show "recipeRateLimiter k now requests =
            (Next, requests(k \<mapsto> \<lparr>windowStart = now, count = 1\<rparr>))"
    unfolding recipeRateLimiter_def by (intro fresh_window) auto
qed

theorem strict_limiter_window_witness:
  "passes (KeyString (lit ''203.0.113.9''))
     (RecipeRequest (KeyString (lit ''203.0.113.9'')) 1000
      # map (RecipeRequest (KeyString (lit ''203.0.113.9'')))
          [2000, 3000, 4000, 5000, 6000, 7000, 8000, 9000, 10000, 11000, 12000, 61000])
     Map.empty \<le> 10
   \<and> passes (KeyString (lit ''203.0.113.9''))
     (RecipeRequest (KeyString (lit ''203.0.113.9'')) 1000
      # map (RecipeRequest (KeyString (lit ''203.0.113.9'')))
          [2000, 3000, 4000, 5000, 6000, 7000, 8000, 9000, 10000, 11000, 12000, 61000])
     Map.empty = 10"
proof -
  have "passes (KeyString (lit ''203.0.113.9''))
     (RecipeRequest (KeyString (lit ''203.0.113.9'')) 1000
      # map (RecipeRequest (KeyString (lit ''203.0.113.9'')))
          [2000, 3000, 4000, 5000, 6000, 7000, 8000, 9000, 10000, 11000, 12000, 61000])
     Map.empty \<le> 10"
    using strict_limiter_window [THEN conjunct1, rule_format,
      of Map.empty "KeyString (lit ''203.0.113.9'')" 1000
         "map (RecipeRequest (KeyString (lit ''203.0.113.9'')))
          [2000, 3000, 4000, 5000, 6000, 7000, 8000, 9000, 10000, 11000, 12000, 61000]"]
    by simp
  moreover have "passes (KeyString (lit ''203.0.113.9''))
     (RecipeRequest (KeyString (lit ''203.0.113.9'')) 1000
      # map (RecipeRequest (KeyString (lit ''203.0.113.9'')))
          [2000, 3000, 4000, 5000, 6000, 7000, 8000, 9000, 10000, 11000, 12000, 61000])
     Map.empty = 10"
    by (simp add: recipeRateLimiter_def rateLimiter_def Let_def)
  ultimately show ?thesis by simp
qed

section \<open>Properties of the extraction routes\<close>

lemma usage_not_incremented_refl: "usage_not_incremented st st"
  by (auto simp: usage_not_incremented_def split: option.splits)

lemma usage_not_incremented_trans:
  assumes "usage_not_incremented a b" "usage_not_incremented b c"
  shows "usage_not_incremented a c"
  unfolding usage_not_incremented_def
proof (intro conjI allI)
  fix uid
  from assms have ab: "case users b uid of
          None \<Rightarrow> users a uid = None
        | Some r' \<Rightarrow> (\<exists>r. users a uid = Some r
                        \<and> total_recipes_ever r' = total_recipes_ever r
                        \<and> (recipes_used_this_month r' = recipes_used_this_month r
                           \<or> recipes_used_this_month r' = 0))"
    and bc: "case users c uid of
          None \<Rightarrow> users b uid = None
        | Some r' \<Rightarrow> (\<exists>r. users b uid = Some r
                        \<and> total_recipes_ever r' = total_recipes_ever r
                        \<and> (recipes_used_this_month r' = recipes_used_this_month r
                           \<or> recipes_used_this_month r' = 0))"
    by (simp_all add: usage_not_incremented_def)
  then show "case users c uid of
          None \<Rightarrow> users a uid = None
        | Some r' \<Rightarrow> (\<exists>r. users a uid = Some r
                        \<and> total_recipes_ever r' = total_recipes_ever r
                        \<and> (recipes_used_this_month r' = recipes_used_this_month r
                           \<or> recipes_used_this_month r' = 0))"
    by (cases "users c uid"; cases "users b uid") auto
next
  fix fp
  from assms have ab: "case anonymous_usage b fp of
          None \<Rightarrow> anonymous_usage a fp = None
        | Some r' \<Rightarrow> recipes_used r' =
                       (case anonymous_usage a fp of None \<Rightarrow> 0 | Some r \<Rightarrow> recipes_used r)"
    and bc: "case anonymous_usage c fp of
          None \<Rightarrow> anonymous_usage b fp = None
        | Some r' \<Rightarrow> recipes_used r' =
                       (case anonymous_usage b fp of None \<Rightarrow> 0 | Some r \<Rightarrow> recipes_used r)"
    by (simp_all add: usage_not_incremented_def)
  then show "case anonymous_usage c fp of
          None \<Rightarrow> anonymous_usage a fp = None
        | Some r' \<Rightarrow> recipes_used r' =
                       (case anonymous_usage a fp of None \<Rightarrow> 0 | Some r \<Rightarrow> recipes_used r)"
    by (cases "anonymous_usage c fp"; cases "anonymous_usage b fp") auto
qed

lemma usage_not_incremented_ledger:
  "usage_not_incremented st (st\<lparr>spending_tracker := l\<rparr>)"
  by (auto simp: usage_not_incremented_def split: option.splits)

lemma reset_usage:
  "resetMonthlyUsageIfNeeded now u st = (u', st') \<Longrightarrow> usage_not_incremented st st'"
  by (auto simp: usage_not_incremented_def resetMonthlyUsageIfNeeded_def Let_def
      split: option.splits if_splits)

lemma getAnonymousUsage_usage:
  "getAnonymousUsage fp ip now st = (row, st') \<Longrightarrow> usage_not_incremented st st'"
  by (auto simp: usage_not_incremented_def getAnonymousUsage_def Let_def
      split: option.splits if_splits)

lemma canCleanRecipe_usage:
  assumes "canCleanRecipe now1 now2 usr fp ip st = (canClean, usr', st')"
  shows "usage_not_incremented st st'"
proof -
  obtain p l where l: "isSystemPaused now1 (spending_tracker st) = (p, l)"
    by (cases "isSystemPaused now1 (spending_tracker st)")
  let ?st1 = "st\<lparr>spending_tracker := l\<rparr>"
  have 1: "usage_not_incremented st ?st1"
    by (rule usage_not_incremented_ledger)
  have "usage_not_incremented ?st1 st'"
    using assms l
    by (auto simp: canCleanRecipe_def Let_def usage_not_incremented_refl
        split: option.splits prod.splits if_splits
        dest: reset_usage getAnonymousUsage_usage)
  with 1 show ?thesis
    by (rule usage_not_incremented_trans)
qed

lemma admit_usage:
  assumes "admit e req st = (x, st')"
  shows "usage_not_incremented st st'"
proof (cases "req_user req")
  case None
  with assms show ?thesis
    by (auto simp: admit_def Let_def split: prod.splits if_splits dest: canCleanRecipe_usage)
next
  case (Some u)
  obtain u' st1 where r: "resetMonthlyUsageIfNeeded (clock e 0) u st = (u', st1)"
    by (cases "resetMonthlyUsageIfNeeded (clock e 0) u st")
  from assms Some r have "usage_not_incremented st1 st'"
    by (auto simp: admit_def Let_def split: prod.splits if_splits dest: canCleanRecipe_usage)
  with reset_usage [OF r] show ?thesis
    by (rule usage_not_incremented_trans)
qed

lemma admit_denied:
  "admit e req st = (Inl r, st') \<Longrightarrow> \<not> succeeded r"
  by (auto simp: admit_def Let_def split: prod.splits if_splits option.splits)

lemma early_response_fails: "\<not> succeeded (early_response r)"
  by (cases r) simp_all

lemma handler_before_commit:
  assumes "isl (fst (admit e req st)) \<or> isl (extraction e req)"
  shows "\<not> succeeded (fst (handler extraction log_stmt e req st))"
    and "usage_not_incremented st (snd (handler extraction log_stmt e req st))"
proof -
  obtain x st2 where a: "admit e req st = (x, st2)"
    by (cases "admit e req st")
  from assms a have "\<not> succeeded (fst (handler extraction log_stmt e req st))
      \<and> snd (handler extraction log_stmt e req st) = st2"
    using admit_denied [of e req st _ st2]
    by (cases x; cases "extraction e req")
       (auto simp: handler_def early_response_fails)
  with admit_usage [OF a]
  show "\<not> succeeded (fst (handler extraction log_stmt e req st))"
    and "usage_not_incremented st (snd (handler extraction log_stmt e req st))"
    by simp_all
qed

lemma handler_early:
  assumes "extraction e req = Inl r"
  shows "\<not> succeeded (fst (handler extraction log_stmt e req st))"
    and "usage_not_incremented st (snd (handler extraction log_stmt e req st))"
  using handler_before_commit [of e req st extraction log_stmt] assms by simp_all





























section \<open>Responses without JSON, and the translator\<close>






text \<open>
  Claim C4. \<open>translateRecipe\<close> overwrites \<open>source\<close>, \<open>sourceUrl\<close> and \<open>imageUrl\<close>
  of the parsed response with those of the input and nothing else: when the response
  says \<open>"servings":8\<close> for a recipe of 4 servings, the recipe returned has 8.
\<close>

theorem translateRecipe_takes_servings_from_the_response:
  \<open>translateRecipe
     (\<lambda>m. if m = lit ''{"title":"Crepes","servings":8,"source":"x","sourceUrl":null,"imageUrl":null}''
          then Some [(lit ''title'', JStr (lit ''Crepes'')), (lit ''servings'', JNum 8),
                     (lit ''source'', JStr (lit ''x'')), (lit ''sourceUrl'', JNull),
                     (lit ''imageUrl'', JNull)]
          else None)
     [(lit ''title'', JStr (lit ''Pancakes'')), (lit ''servings'', JNum 4),
      (lit ''source'', JStr (lit ''example.invalid'')),
      (lit ''sourceUrl'', JStr (lit ''https://example.invalid/pancakes'')),
      (lit ''imageUrl'', JNull)]
     (lit ''fr'')
     (Inr [lit ''{"title":"Crepes","servings":8,"source":"x","sourceUrl":null,"imageUrl":null}''])
   = Inr [(lit ''title'', JStr (lit ''Crepes'')), (lit ''servings'', JNum 8),
          (lit ''source'', JStr (lit ''example.invalid'')),
          (lit ''sourceUrl'', JStr (lit ''https://example.invalid/pancakes'')),
          (lit ''imageUrl'', JNull)]\<close>
proof -
  have m: \<open>response_match
      [lit ''{"title":"Crepes","servings":8,"source":"x","sourceUrl":null,"imageUrl":null}'']
    = Some (lit ''{"title":"Crepes","servings":8,"source":"x","sourceUrl":null,"imageUrl":null}'')\<close>
    by (simp add: response_match_def match_object_def trim_def is_space_def lit_def
        remove_fences.simps)
  show ?thesis
    by (simp add: translateRecipe_def parse_or_throw_def m)
       (simp add: assign_def get_def lit_def)
qed

end
